theory Spec2Isabelle
  imports Main
begin

section \<open>Data model\<close>

text \<open>
  A cell of the rank table holds a taxon name or is missing. pandas has two missing
  values that the code can tell apart: the float \<open>nan\<close> (which is unequal to itself under
  \<open>!=\<close>) and \<open>None\<close>. \<open>pd.isnull\<close> and \<open>pd.notna\<close> treat both as missing.
\<close>

datatype cell = Name string | NaN | PyNone

datatype exn = IndexError | KeyError | Raised string

text \<open>
  A DataFrame: its column labels and its rows, each row holding one cell per column.
  Column labels are taken to be pairwise distinct. A Series (one row, as \<open>iloc\<close> and
  \<open>iterrows\<close> hand it out) pairs each label with the row's value.
\<close>

record DataFrame =
  columns :: "string list"
  rows :: "cell list list"

type_synonym Series = "(string \<times> cell) list"

definition wf_table :: "DataFrame \<Rightarrow> bool" where
  "wf_table df = (distinct (columns df) \<and> (\<forall>row\<in>set (rows df). length row = length (columns df)))"

definition isnull :: "cell \<Rightarrow> bool" where
  "isnull c = (case c of Name _ \<Rightarrow> False | _ \<Rightarrow> True)"

definition notna :: "cell \<Rightarrow> bool" where
  "notna c = (case c of Name _ \<Rightarrow> True | _ \<Rightarrow> False)"

text \<open>Python's \<open>a != b\<close> on cell values: \<open>nan\<close> differs from everything, itself included.\<close>

definition py_ne :: "cell \<Rightarrow> cell \<Rightarrow> bool" where
  "py_ne a b = (a = NaN \<or> b = NaN \<or> a \<noteq> b)"

text \<open>What an f-string prints for a cell value.\<close>

definition fmt :: "cell \<Rightarrow> string" where
  "fmt c = (case c of Name s \<Rightarrow> s | NaN \<Rightarrow> ''nan'' | PyNone \<Rightarrow> ''None'')"

definition iloc0 :: "DataFrame \<Rightarrow> exn + Series" where
  "iloc0 df = (case rows df of [] \<Rightarrow> Inl IndexError | r # _ \<Rightarrow> Inr (zip (columns df) r))"

definition iterrows :: "DataFrame \<Rightarrow> Series list" where
  "iterrows df = map (zip (columns df)) (rows df)"

definition getitem :: "Series \<Rightarrow> string \<Rightarrow> exn + cell" where
  "getitem row label = (case map_of row label of None \<Rightarrow> Inl KeyError | Some v \<Rightarrow> Inr v)"

subsection \<open>Strings\<close>

definition digit_char :: "nat \<Rightarrow> char" where
  "digit_char d = ''0123456789'' ! d"

fun str_nat :: "nat \<Rightarrow> string" where
  "str_nat n = (if n < 10 then [digit_char n] else str_nat (n div 10) @ [digit_char (n mod 10)])"

declare str_nat.simps [simp del]

text \<open>Python's \<open>str\<close> on an integer.\<close>

definition str_int :: "int \<Rightarrow> string" where
  "str_int i = (if i < 0 then CHR ''-'' # str_nat (nat (- i)) else str_nat (nat i))"

text \<open>\<open>str.lower\<close> on ASCII text: the capital letters map to their small letters.\<close>

definition lower_char :: "char \<Rightarrow> char" where
  "lower_char c =
     (case map_of (zip ''ABCDEFGHIJKLMNOPQRSTUVWXYZ'' ''abcdefghijklmnopqrstuvwxyz'') c of
        Some d \<Rightarrow> d
      | None \<Rightarrow> c)"

definition lower :: "string \<Rightarrow> string" where
  "lower s = map lower_char s"

definition TAB :: char where
  "TAB = CHR 0x09"

definition NL :: char where
  "NL = CHR 0x0A"

text \<open>The field separator \<open>\t|\t\<close> of both dump formats.\<close>

definition sep :: string where
  "sep = [TAB, CHR ''|'', TAB]"

definition rank_order :: "string list" where
  "rank_order = [''kingdom'', ''phylum'', ''class'', ''order'', ''family'', ''genus'', ''species'']"

definition root_names_line :: string where
  "root_names_line = ''1'' @ sep @ ''root'' @ sep @ sep @ ''scientific name'' @ [NL]"

definition root_nodes_line :: string where
  "root_nodes_line = ''1'' @ sep @ ''1'' @ sep @ ''no rank'' @ [TAB, CHR ''|'', NL]"

section \<open>The resolver and traced computations\<close>

text \<open>
  The resolver is the \<open>get_name_translator\<close> method of the \<open>NCBITaxa\<close> instance handed to
  the emitters. It lives outside the repository, so it is a parameter: it takes the list
  of queried values and returns a dict from names to lists of tax ids (in insertion
  order), or raises.

  A computation that may call the resolver returns its result (or the exception that
  ended it) together with the values it queried the resolver with, in call order.
\<close>

type_synonym NCBITaxa = "cell list \<Rightarrow> exn + (cell \<times> int list) list"

type_synonym 'a traced = "(exn + 'a) \<times> cell list"

definition tr_return :: "'a \<Rightarrow> 'a traced" where
  "tr_return x = (Inr x, [])"

definition tr_raise :: "exn \<Rightarrow> 'a traced" where
  "tr_raise e = (Inl e, [])"

definition tr_bind :: "'a traced \<Rightarrow> ('a \<Rightarrow> 'b traced) \<Rightarrow> 'b traced" where
  "tr_bind m f = (case m of
       (Inl e, calls) \<Rightarrow> (Inl e, calls)
     | (Inr x, calls) \<Rightarrow> (case f x of (r, calls') \<Rightarrow> (r, calls @ calls')))"

definition get_name_translator :: "NCBITaxa \<Rightarrow> cell \<Rightarrow> ((cell \<times> int list) list) traced" where
  "get_name_translator ncbi_instance taxa = (ncbi_instance [taxa], [taxa])"

text \<open>
  \<open>getTaxIDFromNCBI\<close>: the tax id as a string when the dict is not empty, the queried
  value itself otherwise. (The warning printed on a miss goes to standard output and is
  not part of the model.)
\<close>

definition getTaxIDFromNCBI :: "cell \<Rightarrow> NCBITaxa \<Rightarrow> cell traced" where
  "getTaxIDFromNCBI taxa ncbi_instance =
     tr_bind (get_name_translator ncbi_instance taxa) (\<lambda>taxid.
       if taxid \<noteq> [] then
         (case snd (hd taxid) of
            [] \<Rightarrow> tr_raise IndexError
          | i # _ \<Rightarrow> tr_return (Name (str_int i)))
       else tr_return taxa)"

section \<open>The names emitter\<close>

definition names_write_line :: "NCBITaxa \<Rightarrow> string \<Rightarrow> cell \<Rightarrow> string traced" where
  "names_write_line ncbi_instance level name =
     tr_bind (getTaxIDFromNCBI name ncbi_instance) (\<lambda>tax_id.
       tr_return (fmt tax_id @ sep
          @ (if name \<noteq> Name ''root'' then take 1 level @ ''__'' @ fmt name else ''root'')
          @ sep @ sep @ ''scientific name'' @ [NL]))"

text \<open>The loop over \<open>rank_order\<close> for the first record.\<close>

fun first_entry_lines :: "NCBITaxa \<Rightarrow> Series \<Rightarrow> string list \<Rightarrow> string list \<Rightarrow> string list traced" where
  "first_entry_lines ncbi_instance first_entry [] lines = tr_return lines"
| "first_entry_lines ncbi_instance first_entry (level # levels) lines =
     (case getitem first_entry level of
        Inl e \<Rightarrow> tr_raise e
      | Inr name \<Rightarrow>
          tr_bind (names_write_line ncbi_instance (take 1 level) name) (\<lambda>l.
            first_entry_lines ncbi_instance first_entry levels (lines @ [l])))"

text \<open>The inner loop over \<open>rank_order\<close> for a later record, compared with its predecessor.\<close>

fun names_row :: "NCBITaxa \<Rightarrow> Series \<Rightarrow> Series \<Rightarrow> string list \<Rightarrow> string list \<Rightarrow> string list traced" where
  "names_row ncbi_instance row previous [] lines = tr_return lines"
| "names_row ncbi_instance row previous (level # levels) lines =
     (case getitem row level of
        Inl e \<Rightarrow> tr_raise e
      | Inr a \<Rightarrow>
         (case getitem previous level of
            Inl e \<Rightarrow> tr_raise e
          | Inr b \<Rightarrow>
              if py_ne a b then
                tr_bind (names_write_line ncbi_instance (take 1 level) a) (\<lambda>l.
                  names_row ncbi_instance row previous levels (lines @ [l]))
              else names_row ncbi_instance row previous levels lines))"

fun names_rows :: "NCBITaxa \<Rightarrow> Series list \<Rightarrow> Series \<Rightarrow> string list \<Rightarrow> string list traced" where
  "names_rows ncbi_instance [] previous lines = tr_return lines"
| "names_rows ncbi_instance (row # rest) previous lines =
     tr_bind (names_row ncbi_instance row previous rank_order lines) (\<lambda>lines'.
       names_rows ncbi_instance rest row lines')"

text \<open>
  \<open>create_names_dump\<close>: the result is the list of lines written to the output file. The
  file is written only after both loops have finished, so an exception leaves no stream.
\<close>

definition create_names_dump :: "DataFrame \<Rightarrow> NCBITaxa \<Rightarrow> string list traced" where
  "create_names_dump speciesSorted ncbi_instance =
     (case iloc0 speciesSorted of
        Inl e \<Rightarrow> tr_raise e
      | Inr first_entry \<Rightarrow>
          tr_bind (first_entry_lines ncbi_instance first_entry rank_order [root_names_line]) (\<lambda>lines.
            names_rows ncbi_instance (drop 1 (iterrows speciesSorted)) first_entry lines))"

section \<open>The nodes emitter\<close>

definition parent_id_of :: "NCBITaxa \<Rightarrow> cell \<Rightarrow> cell traced" where
  "parent_id_of ncbi_instance parent =
     (if parent \<noteq> Name ''root'' then getTaxIDFromNCBI parent ncbi_instance
      else tr_return (Name ''1''))"

definition nodes_write_line :: "NCBITaxa \<Rightarrow> cell \<Rightarrow> cell \<Rightarrow> string \<Rightarrow> string traced" where
  "nodes_write_line ncbi_instance child parent rank =
     tr_bind (getTaxIDFromNCBI child ncbi_instance) (\<lambda>child_id.
     tr_bind (parent_id_of ncbi_instance parent) (\<lambda>parent_id.
       tr_return (fmt child_id @ sep @ fmt parent_id @ sep
          @ (if rank \<noteq> [] then lower rank else ''no rank'') @ [TAB, CHR ''|'', NL])))"

text \<open>
  The walk of one record over the available ranks. The state is the list of lines and
  the set \<open>written_nodes\<close>; \<open>break\<close> at a missing value returns the state as it is.
\<close>

fun nodes_row :: "NCBITaxa \<Rightarrow> Series \<Rightarrow> string list \<Rightarrow> cell
      \<Rightarrow> string list \<times> (cell \<times> cell) set \<Rightarrow> (string list \<times> (cell \<times> cell) set) traced" where
  "nodes_row ncbi_instance row [] parent st = tr_return st"
| "nodes_row ncbi_instance row (rank # ranks) parent (lines, written_nodes) =
     (case getitem row rank of
        Inl e \<Rightarrow> tr_raise e
      | Inr child \<Rightarrow>
          if notna child then
            tr_bind (getTaxIDFromNCBI child ncbi_instance) (\<lambda>child_id.
            tr_bind (parent_id_of ncbi_instance parent) (\<lambda>parent_id.
              if (child_id, parent_id) \<notin> written_nodes then
                tr_bind (nodes_write_line ncbi_instance child parent rank) (\<lambda>l.
                  nodes_row ncbi_instance row ranks child
                    (lines @ [l], insert (child_id, parent_id) written_nodes))
              else nodes_row ncbi_instance row ranks child (lines, written_nodes)))
          else tr_return (lines, written_nodes))"

fun nodes_rows :: "NCBITaxa \<Rightarrow> Series list \<Rightarrow> string list
      \<Rightarrow> string list \<times> (cell \<times> cell) set \<Rightarrow> (string list \<times> (cell \<times> cell) set) traced" where
  "nodes_rows ncbi_instance [] available_ranks st = tr_return st"
| "nodes_rows ncbi_instance (row # rest) available_ranks st =
     tr_bind (nodes_row ncbi_instance row available_ranks (Name ''root'') st) (\<lambda>st'.
       nodes_rows ncbi_instance rest available_ranks st')"

definition available_ranks :: "DataFrame \<Rightarrow> string list" where
  "available_ranks speciesSorted = filter (\<lambda>rank. rank \<in> set (columns speciesSorted)) rank_order"

definition create_nodes_dump :: "DataFrame \<Rightarrow> NCBITaxa \<Rightarrow> string list traced" where
  "create_nodes_dump speciesSorted ncbi_instance =
     tr_bind (nodes_rows ncbi_instance (iterrows speciesSorted) (available_ranks speciesSorted)
                ([root_nodes_line], {(Name ''1'', Name ''1'')}))
       (\<lambda>st. tr_return (fst st))"

section \<open>The imputer\<close>

text \<open>
  DataFrames are mutable objects; the imputer copies its argument and then assigns into
  the copy. The store holds the DataFrame objects, a reference is an index into it, and
  a new object is appended at the end.
\<close>

type_synonym store = "DataFrame list"

definition df_copy :: "store \<Rightarrow> nat \<Rightarrow> store \<times> nat" where
  "df_copy h a = (h @ [h ! a], length h)"

definition replace_cell :: "cell \<Rightarrow> cell" where
  "replace_cell c = (if c = Name ''unknown_rank_name'' then PyNone else c)"

text \<open>
  \<open>df.replace('unknown_rank_name', None)\<close> returns a new DataFrame in which every cell
  equal to the sentinel holds \<open>None\<close> (pandas from 1.4 on, where an explicit \<open>None\<close> is the
  replacement value).
\<close>

definition df_replace :: "store \<Rightarrow> nat \<Rightarrow> store \<times> nat" where
  "df_replace h a = (h @ [(h ! a)\<lparr>rows := map (map replace_cell) (rows (h ! a))\<rparr>], length h)"

text \<open>\<open>np.where(pd.isnull(df) == True)\<close>: the positions of the missing cells, row by row.\<close>

definition isnull_positions :: "cell list list \<Rightarrow> (nat \<times> nat) list" where
  "isnull_positions rs =
     concat (map (\<lambda>r. map (\<lambda>c. (r, c)) (filter (\<lambda>c. isnull (rs ! r ! c)) [0..<length (rs ! r)]))
                 [0..<length rs])"

definition set_cell :: "cell list list \<Rightarrow> nat \<Rightarrow> nat \<Rightarrow> cell \<Rightarrow> cell list list" where
  "set_cell rs r c v = rs[r := (rs ! r)[c := v]]"

text \<open>\<open>df.iloc[r, c] = v\<close> on the object at reference \<open>a\<close>.\<close>

definition iloc_set :: "store \<Rightarrow> nat \<Rightarrow> nat \<Rightarrow> nat \<Rightarrow> cell \<Rightarrow> store" where
  "iloc_set h a r c v = h[a := (h ! a)\<lparr>rows := set_cell (rows (h ! a)) r c v\<rparr>]"

fun assign_unknowns :: "(nat \<times> nat) list \<Rightarrow> int \<Rightarrow> store \<Rightarrow> nat \<Rightarrow> store" where
  "assign_unknowns [] i h a = h"
| "assign_unknowns ((r, c) # ps) i h a =
     assign_unknowns ps (i + 1) (iloc_set h a r c (Name (''unknown'' @ str_int i))) a"

text \<open>
  \<open>impute_taxons\<close> takes the store and the reference of its argument and returns the new
  store and the reference of the DataFrame it returns.
\<close>

definition impute_taxons :: "store \<Rightarrow> nat \<Rightarrow> store \<times> nat" where
  "impute_taxons h taxon_df =
     (let (h1, df1) = df_copy h taxon_df;
          (h2, df2) = df_replace h1 df1;
          ps = isnull_positions (rows (h2 ! df2))
      in (assign_unknowns ps 1 h2 df2, df2))"

section \<open>Hypotheses on the resolver, and sample inputs\<close>

text \<open>
  A resolver that answers every query: it returns a dict, and a dict that is not empty
  lists at least one tax id under its first name.
\<close>

definition resolver_ok :: "NCBITaxa \<Rightarrow> bool" where
  "resolver_ok ncbi = (\<forall>taxa. \<exists>d. ncbi [taxa] = Inr d \<and> (d \<noteq> [] \<longrightarrow> snd (hd d) \<noteq> []))"

text \<open>A resolver that knows one species, and one that knows nothing.\<close>

definition demo_ncbi :: NCBITaxa where
  "demo_ncbi names =
     (if names = [Name ''Homo sapiens''] then Inr [(Name ''Homo sapiens'', [9606])] else Inr [])"

definition miss_ncbi :: NCBITaxa where
  "miss_ncbi names = Inr []"

text \<open>Sample tables: no records; three rank columns only; all seven rank columns.\<close>

definition empty_table :: DataFrame where
  "empty_table = \<lparr>columns = rank_order, rows = []\<rparr>"

definition three_column_table :: DataFrame where
  "three_column_table = \<lparr>columns = [''kingdom'', ''phylum'', ''species''], rows =
     [[Name ''Animalia'', Name ''Chordata'', Name ''Canis lupus''],
      [Name ''Animalia'', Name ''Chordata'', Name ''Homo sapiens'']]\<rparr>"

definition sorted_table :: DataFrame where
  "sorted_table = \<lparr>columns = rank_order, rows =
     [[Name ''K'', Name ''P'', Name ''C'', Name ''O'', Name ''F1'', Name ''G1'', Name ''S1''],
      [Name ''K'', Name ''P'', Name ''C'', Name ''O'', Name ''F1'', Name ''G2'', Name ''S2''],
      [Name ''K'', Name ''P'', Name ''C'', Name ''O'', Name ''F2'', Name ''G1'', Name ''S3'']]\<rparr>"

section \<open>Notions used to state the imputer's contract\<close>

text \<open>A cell the imputer is to fill: null, or the sentinel \<open>unknown_rank_name\<close>.\<close>

definition missing :: "cell \<Rightarrow> bool" where
  "missing c = (isnull c \<or> c = Name ''unknown_rank_name'')"

text \<open>Row-major order on positions (row, column).\<close>

definition rowmajor_less :: "nat \<times> nat \<Rightarrow> nat \<times> nat \<Rightarrow> bool" where
  "rowmajor_less p q = (fst p < fst q \<or> (fst p = fst q \<and> snd p < snd q))"

text \<open>The effect of the assignment loop on the rows of the one DataFrame it writes to.\<close>

fun assign_rows :: "(nat \<times> nat) list \<Rightarrow> int \<Rightarrow> cell list list \<Rightarrow> cell list list" where
  "assign_rows [] i rs = rs"
| "assign_rows ((r, c) # ps) i rs =
     assign_rows ps (i + 1) (set_cell rs r c (Name (''unknown'' @ str_int i)))"

text \<open>A store holding one table with three missing cells, and the store after imputation.\<close>

definition gappy_table :: DataFrame where
  "gappy_table = \<lparr>columns = [''kingdom'', ''phylum''], rows =
     [[NaN, Name ''Chordata''], [Name ''unknown_rank_name'', PyNone]]\<rparr>"

definition imputed_table :: DataFrame where
  "imputed_table = \<lparr>columns = [''kingdom'', ''phylum''], rows =
     [[Name ''unknown1'', Name ''Chordata''], [Name ''unknown2'', Name ''unknown3'']]\<rparr>"

section \<open>Notions used to state the emitters' contracts\<close>

text \<open>
  The identifier that the resolution operation yields for a value (the value itself
  where the call raises, in which case no stream is produced).
\<close>

definition resolved :: "NCBITaxa \<Rightarrow> cell \<Rightarrow> cell" where
  "resolved ncbi taxa = (case fst (getTaxIDFromNCBI taxa ncbi) of Inr i \<Rightarrow> i | Inl e \<Rightarrow> taxa)"

text \<open>The value of a record at a rank label (null where the record has no such label).\<close>

definition value_at :: "Series \<Rightarrow> string \<Rightarrow> cell" where
  "value_at row label = (case map_of row label of Some v \<Rightarrow> v | None \<Rightarrow> PyNone)"

text \<open>The two line formats, as functions of the fields.\<close>

definition name_line :: "cell \<Rightarrow> string \<Rightarrow> cell \<Rightarrow> string" where
  "name_line tax_id level name =
     fmt tax_id @ sep
       @ (if name \<noteq> Name ''root'' then take 1 level @ ''__'' @ fmt name else ''root'')
       @ sep @ sep @ ''scientific name'' @ [NL]"

definition node_line :: "cell \<Rightarrow> cell \<Rightarrow> string \<Rightarrow> string" where
  "node_line child_id parent_id rank =
     fmt child_id @ sep @ fmt parent_id @ sep @ rank @ [TAB, CHR ''|'', NL]"

text \<open>
  The names stream as the code computes it. \<open>names_emitted\<close> lists the (rank, value)
  pairs that get a line: every rank column of the first record, in rank order; then, for
  each later record in table order and each rank column in rank order, the record's
  value there if and only if the code's comparison \<open>!=\<close> with the value of the record
  just before it holds (\<open>py_ne\<close>, under which \<open>nan\<close> differs from \<open>nan\<close>).
  \<open>names_by_predecessor_rule\<close> is the root line followed by one line per such pair.
\<close>

definition names_emitted :: "DataFrame \<Rightarrow> (string \<times> cell) list" where
  "names_emitted df =
     (let rs = iterrows df in
        concat (map (\<lambda>row. map (\<lambda>level. (level, value_at row level)) rank_order) (take 1 rs))
      @ concat (map (\<lambda>(previous, row).
                   map (\<lambda>level. (level, value_at row level))
                     (filter (\<lambda>level. py_ne (value_at row level) (value_at previous level)) rank_order))
                 (zip rs (drop 1 rs))))"

definition names_by_predecessor_rule :: "NCBITaxa \<Rightarrow> DataFrame \<Rightarrow> string list" where
  "names_by_predecessor_rule ncbi df =
     root_names_line # map (\<lambda>(level, v). name_line (resolved ncbi v) level v) (names_emitted df)"

text \<open>
  The nodes stream as the specification words it. \<open>row_steps\<close> lists the steps of one
  record's walk as (child, parent, rank): the ranks in order, starting from the root
  sentinel as parent, up to the first missing value. \<open>pair_of\<close> resolves a step to its
  (child-id, parent-id) pair. \<open>emit_new\<close> keeps the steps whose pair has not been seen.
  \<open>nodes_by_walk\<close> is the root line followed by one line per kept step, and
  \<open>walk_calls\<close> lists the resolver queries of the walk.
\<close>

fun row_steps :: "Series \<Rightarrow> string list \<Rightarrow> cell \<Rightarrow> (cell \<times> cell \<times> string) list" where
  "row_steps row [] parent = []"
| "row_steps row (rank # ranks) parent =
     (if notna (value_at row rank)
      then (value_at row rank, parent, rank) # row_steps row ranks (value_at row rank)
      else [])"

definition table_steps :: "DataFrame \<Rightarrow> (cell \<times> cell \<times> string) list" where
  "table_steps df =
     concat (map (\<lambda>row. row_steps row (available_ranks df) (Name ''root'')) (iterrows df))"

definition parent_ident :: "NCBITaxa \<Rightarrow> cell \<Rightarrow> cell" where
  "parent_ident ncbi parent = (if parent \<noteq> Name ''root'' then resolved ncbi parent else Name ''1'')"

definition pair_of :: "NCBITaxa \<Rightarrow> cell \<times> cell \<times> string \<Rightarrow> cell \<times> cell" where
  "pair_of ncbi step = (resolved ncbi (fst step), parent_ident ncbi (fst (snd step)))"

fun emit_new :: "('a \<Rightarrow> 'k) \<Rightarrow> 'a list \<Rightarrow> 'k set \<Rightarrow> 'a list" where
  "emit_new key [] seen = []"
| "emit_new key (x # xs) seen =
     (if key x \<in> seen then emit_new key xs seen
      else x # emit_new key xs (insert (key x) seen))"

definition rank_text :: "string \<Rightarrow> string" where
  "rank_text rank = (if rank \<noteq> [] then lower rank else ''no rank'')"

definition step_line :: "NCBITaxa \<Rightarrow> cell \<times> cell \<times> string \<Rightarrow> string" where
  "step_line ncbi step =
     node_line (fst (pair_of ncbi step)) (snd (pair_of ncbi step)) (rank_text (snd (snd step)))"

definition root_pair :: "cell \<times> cell" where
  "root_pair = (Name ''1'', Name ''1'')"

definition nodes_emitted :: "NCBITaxa \<Rightarrow> DataFrame \<Rightarrow> (cell \<times> cell \<times> string) list" where
  "nodes_emitted ncbi df = emit_new (pair_of ncbi) (table_steps df) {root_pair}"

definition nodes_by_walk :: "NCBITaxa \<Rightarrow> DataFrame \<Rightarrow> string list" where
  "nodes_by_walk ncbi df = root_nodes_line # map (step_line ncbi) (nodes_emitted ncbi df)"

text \<open>The resolver queries of one step: the child, and the parent unless it is the root sentinel.\<close>

definition queries :: "cell \<times> cell \<times> string \<Rightarrow> cell list" where
  "queries step = fst step # (if fst (snd step) \<noteq> Name ''root'' then [fst (snd step)] else [])"

fun walk_calls :: "NCBITaxa \<Rightarrow> (cell \<times> cell \<times> string) list \<Rightarrow> (cell \<times> cell) set \<Rightarrow> cell list" where
  "walk_calls ncbi [] seen = []"
| "walk_calls ncbi (x # xs) seen =
     (if pair_of ncbi x \<in> seen then queries x @ walk_calls ncbi xs seen
      else queries x @ queries x @ walk_calls ncbi xs (insert (pair_of ncbi x) seen))"

text \<open>
  Reading a line back: \<open>line_id\<close> is its first field (the identifier of a names line,
  the child identifier of a nodes line) and \<open>line_parent\<close> the field after the first
  separator (the parent identifier of a nodes line). A table is \<open>tab_free\<close> when no cell
  prints with a tab character, so that the fields of a line are determined by the line.
\<close>

definition line_id :: "string \<Rightarrow> string" where
  "line_id l = takeWhile (\<lambda>c. c \<noteq> TAB) l"

definition line_parent :: "string \<Rightarrow> string" where
  "line_parent l = takeWhile (\<lambda>c. c \<noteq> TAB) (drop 3 (dropWhile (\<lambda>c. c \<noteq> TAB) l))"

definition line_pair :: "string \<Rightarrow> string \<times> string" where
  "line_pair l = (line_id l, line_parent l)"

definition tab_free :: "DataFrame \<Rightarrow> bool" where
  "tab_free df = (\<forall>row\<in>set (rows df). \<forall>v\<in>set row. TAB \<notin> set (fmt v))"

text \<open>The two streams of \<open>sorted_table\<close> under the resolver that knows nothing.\<close>

definition sorted_table_names :: "string list" where
  "sorted_table_names =
     [root_names_line,
      name_line (Name ''K'') ''kingdom'' (Name ''K''),
      name_line (Name ''P'') ''phylum'' (Name ''P''),
      name_line (Name ''C'') ''class'' (Name ''C''),
      name_line (Name ''O'') ''order'' (Name ''O''),
      name_line (Name ''F1'') ''family'' (Name ''F1''),
      name_line (Name ''G1'') ''genus'' (Name ''G1''),
      name_line (Name ''S1'') ''species'' (Name ''S1''),
      name_line (Name ''G2'') ''genus'' (Name ''G2''),
      name_line (Name ''S2'') ''species'' (Name ''S2''),
      name_line (Name ''F2'') ''family'' (Name ''F2''),
      name_line (Name ''G1'') ''genus'' (Name ''G1''),
      name_line (Name ''S3'') ''species'' (Name ''S3'')]"

definition sorted_table_nodes :: "string list" where
  "sorted_table_nodes =
     [root_nodes_line,
      node_line (Name ''K'') (Name ''1'') ''kingdom'',
      node_line (Name ''P'') (Name ''K'') ''phylum'',
      node_line (Name ''C'') (Name ''P'') ''class'',
      node_line (Name ''O'') (Name ''C'') ''order'',
      node_line (Name ''F1'') (Name ''O'') ''family'',
      node_line (Name ''G1'') (Name ''F1'') ''genus'',
      node_line (Name ''S1'') (Name ''G1'') ''species'',
      node_line (Name ''G2'') (Name ''F1'') ''genus'',
      node_line (Name ''S2'') (Name ''G2'') ''species'',
      node_line (Name ''F2'') (Name ''O'') ''family'',
      node_line (Name ''G1'') (Name ''F2'') ''genus'',
      node_line (Name ''S3'') (Name ''G1'') ''species'']"

text \<open>
  A record with a gap: kingdom and class hold a value, phylum and the ranks below class
  are missing. A table with a single cell.
\<close>

definition gap_row :: Series where
  "gap_row = zip rank_order [Name ''A'', NaN, Name ''B'', NaN, NaN, NaN, NaN]"

definition gap_table :: DataFrame where
  "gap_table = \<lparr>columns = rank_order, rows = [[Name ''A'', NaN, Name ''B'', NaN, NaN, NaN, NaN]]\<rparr>"

definition one_cell_table :: DataFrame where
  "one_cell_table = \<lparr>columns = [''kingdom''], rows = [[Name ''A'']]\<rparr>"

text \<open>
  A resolver that, like the NCBI database, maps the name \<open>root\<close> to tax id 1, and a table
  whose first record carries that name.
\<close>

definition root_ncbi :: NCBITaxa where
  "root_ncbi names = (if names = [Name ''root''] then Inr [(Name ''root'', [1])] else Inr [])"

definition root_cell_table :: DataFrame where
  "root_cell_table = \<lparr>columns = rank_order, rows =
     [[Name ''root'', Name ''P'', Name ''C'', Name ''O'', Name ''F'', Name ''G'', Name ''S'']]\<rparr>"

definition root_cell_names :: "string list" where
  "root_cell_names =
     [root_names_line,
      name_line (Name ''1'') ''kingdom'' (Name ''root''),
      name_line (Name ''P'') ''phylum'' (Name ''P''),
      name_line (Name ''C'') ''class'' (Name ''C''),
      name_line (Name ''O'') ''order'' (Name ''O''),
      name_line (Name ''F'') ''family'' (Name ''F''),
      name_line (Name ''G'') ''genus'' (Name ''G''),
      name_line (Name ''S'') ''species'' (Name ''S'')]"

definition gap_table_names :: "string list" where
  "gap_table_names =
     [root_names_line,
      name_line (Name ''A'') ''kingdom'' (Name ''A''),
      name_line NaN ''phylum'' NaN,
      name_line (Name ''B'') ''class'' (Name ''B''),
      name_line NaN ''order'' NaN,
      name_line NaN ''family'' NaN,
      name_line NaN ''genus'' NaN,
      name_line NaN ''species'' NaN]"








section \<open>Basic facts\<close>

lemma tr_bind_return [simp]: "tr_bind (tr_return x) f = f x"
  by (simp add: tr_bind_def tr_return_def split: prod.splits)

lemma tr_bind_raise [simp]: "tr_bind (tr_raise e) f = tr_raise e"
  by (simp add: tr_bind_def tr_raise_def)

lemma tr_bind_Inl [simp]: "tr_bind (Inl e, c) f = (Inl e, c)"
  by (simp add: tr_bind_def)

lemma tr_bind_Inr [simp]: "tr_bind (Inr x, c) f = (fst (f x), c @ snd (f x))"
  by (simp add: tr_bind_def split: prod.splits)

lemma fst_tr_bind_Inr:
  "fst (tr_bind m f) = Inr y \<longleftrightarrow> (\<exists>x. fst m = Inr x \<and> fst (f x) = Inr y)"
  by (cases m; cases "fst m") (auto simp: tr_bind_def split: prod.splits)

lemma tr_bind_eq_Inr:
  "tr_bind m f = (Inr y, c) \<longleftrightarrow>
     (\<exists>x c1 c2. m = (Inr x, c1) \<and> f x = (Inr y, c2) \<and> c = c1 @ c2)"
  by (cases m; cases "fst m") (auto simp: tr_bind_def split: prod.splits)

lemma fst_tr_return [simp]: "fst (tr_return x) = Inr x" "snd (tr_return x) = []"
  by (simp_all add: tr_return_def)

lemma fst_tr_raise [simp]: "fst (tr_raise e) = Inl e" "snd (tr_raise e) = []"
  by (simp_all add: tr_raise_def)

lemma getTaxID_calls [simp]: "snd (getTaxIDFromNCBI taxa ncbi) = [taxa]"
  by (cases "ncbi [taxa]")
     (auto simp: getTaxIDFromNCBI_def get_name_translator_def tr_return_def tr_raise_def split: list.splits)

lemma str_nat_nonempty: "str_nat n \<noteq> []"
  by (subst str_nat.simps) simp

lemma digit_char_inj: "a < 10 \<Longrightarrow> b < 10 \<Longrightarrow> digit_char a = digit_char b \<Longrightarrow> a = b"
proof -
  assume a: "a < 10" and b: "b < 10" and e: "digit_char a = digit_char b"
  have "distinct ''0123456789''" by simp
  with a b e show "a = b"
    unfolding digit_char_def by (simp add: nth_eq_iff_index_eq)
qed

lemma str_nat_inj: "str_nat n = str_nat m \<Longrightarrow> n = m"
proof (induction n arbitrary: m rule: str_nat.induct)
  case (1 n)
  show ?case
  proof (cases "n < 10")
    case True
    show ?thesis
    proof (cases "m < 10")
      case True
      with \<open>n < 10\<close> 1(2) show ?thesis
        by (simp add: str_nat.simps [of n] str_nat.simps [of m] digit_char_inj)
    next
      case False
      with \<open>n < 10\<close> 1(2) show ?thesis
        using str_nat_nonempty [of "m div 10"]
        by (simp add: str_nat.simps [of n] str_nat.simps [of m] Cons_eq_append_conv)
    qed
  next
    case False
    show ?thesis
    proof (cases "m < 10")
      case True
      with \<open>\<not> n < 10\<close> 1(2) show ?thesis
        using str_nat_nonempty [of "n div 10"]
        by (simp add: str_nat.simps [of n] str_nat.simps [of m] append_eq_Cons_conv)
    next
      case m: False
      from False m 1(2) have e: "str_nat (n div 10) = str_nat (m div 10)"
        and d: "digit_char (n mod 10) = digit_char (m mod 10)"
        by (simp_all add: str_nat.simps [of n] str_nat.simps [of m])
      from 1(1) [OF False e] have "n div 10 = m div 10" .
      moreover from d have "n mod 10 = m mod 10"
        by (intro digit_char_inj) simp_all
      ultimately show ?thesis
        by (metis div_mult_mod_eq)
    qed
  qed
qed


lemma fst_tr_bind: "fst (tr_bind m f) = (case fst m of Inl e \<Rightarrow> Inl e | Inr x \<Rightarrow> fst (f x))"
  by (cases m; cases "fst m") (auto simp: tr_bind_def split: prod.splits)

lemma snd_tr_bind:
  "snd (tr_bind m f) = (case fst m of Inl e \<Rightarrow> snd m | Inr x \<Rightarrow> snd m @ snd (f x))"
  by (cases m; cases "fst m") (auto simp: tr_bind_def split: prod.splits)

lemma getTaxID_hit:
  "ncbi [taxa] = Inr ((k, i # ids) # d) \<Longrightarrow> getTaxIDFromNCBI taxa ncbi = (Inr (Name (str_int i)), [taxa])"
  by (simp add: getTaxIDFromNCBI_def get_name_translator_def tr_return_def)

lemma getTaxID_miss:
  "ncbi [taxa] = Inr [] \<Longrightarrow> getTaxIDFromNCBI taxa ncbi = (Inr taxa, [taxa])"
  by (simp add: getTaxIDFromNCBI_def get_name_translator_def tr_return_def)

text \<open>
  Claim C7. When the resolver knows the name (its dict is not empty), \<open>getTaxIDFromNCBI\<close>
  returns the first tax id as a string; when the dict is empty it returns the queried
  name itself, unchanged. A miss is a normal return, not an exception, and the callers
  \<open>write_line\<close> of both emitters go on to build their line with the fallback value as the
  identifier. Either way the resolver is queried once.
\<close>

theorem getTaxIDFromNCBI_id_or_fallback:
  "(ncbi [taxa] = Inr ((k, i # ids) # d) \<longrightarrow>
      getTaxIDFromNCBI taxa ncbi = (Inr (Name (str_int i)), [taxa])) \<and>
   (ncbi [taxa] = Inr [] \<longrightarrow>
      getTaxIDFromNCBI taxa ncbi = (Inr taxa, [taxa]) \<and>
      (\<exists>l. names_write_line ncbi level taxa = (Inr (fmt taxa @ sep @ l), [taxa])) \<and>
      (\<exists>l. nodes_write_line ncbi taxa (Name ''root'') rank = (Inr (fmt taxa @ sep @ l), [taxa])))"
  by (auto simp: getTaxID_hit getTaxID_miss names_write_line_def nodes_write_line_def
        parent_id_of_def tr_return_def)

theorem getTaxIDFromNCBI_id_or_fallback_witness:
  "demo_ncbi [Name ''Homo sapiens''] = Inr [(Name ''Homo sapiens'', [9606])] \<and>
   getTaxIDFromNCBI (Name ''Homo sapiens'') demo_ncbi = (Inr (Name ''9606''), [Name ''Homo sapiens'']) \<and>
   demo_ncbi [Name ''Yeti''] = Inr [] \<and>
   getTaxIDFromNCBI (Name ''Yeti'') demo_ncbi = (Inr (Name ''Yeti''), [Name ''Yeti''])"
proof -
  have s: "str_int 9606 = ''9606''"
    by (simp add: str_int_def str_nat.simps digit_char_def)
  show ?thesis
    using getTaxIDFromNCBI_id_or_fallback
            [of demo_ncbi "Name ''Homo sapiens''" "Name ''Homo sapiens''" 9606 "[]" "[]" "[]" "[]"]
          getTaxIDFromNCBI_id_or_fallback
            [of demo_ncbi "Name ''Yeti''" "Name ''Yeti''" 0 "[]" "[]" "[]" "[]"]
    by (simp add: demo_ncbi_def s)
qed

lemma resolver_ok_getTaxID: "resolver_ok ncbi \<Longrightarrow> \<exists>r. getTaxIDFromNCBI taxa ncbi = (Inr r, [taxa])"
proof -
  assume "resolver_ok ncbi"
  then obtain d where d: "ncbi [taxa] = Inr d" "d \<noteq> [] \<longrightarrow> snd (hd d) \<noteq> []"
    unfolding resolver_ok_def by blast
  then show ?thesis
    by (cases d; cases "snd (hd d)")
       (auto simp: getTaxIDFromNCBI_def get_name_translator_def tr_return_def)
qed

lemma resolver_ok_names_write_line:
  "resolver_ok ncbi \<Longrightarrow> \<exists>l. names_write_line ncbi level name = (Inr l, [name])"
  using resolver_ok_getTaxID [of ncbi name]
  by (auto simp: names_write_line_def tr_return_def)

lemma resolver_ok_parent_id:
  "resolver_ok ncbi \<Longrightarrow> \<exists>r c. parent_id_of ncbi parent = (Inr r, c)"
  using resolver_ok_getTaxID [of ncbi parent]
  by (auto simp: parent_id_of_def tr_return_def)

lemma resolver_ok_nodes_write_line:
  "resolver_ok ncbi \<Longrightarrow> \<exists>l c. nodes_write_line ncbi child parent rank = (Inr l, c)"
  using resolver_ok_getTaxID [of ncbi child] resolver_ok_parent_id [of ncbi parent]
  by (auto simp: nodes_write_line_def tr_return_def)

lemma first_entry_lines_missing_label:
  "level \<in> set levels \<Longrightarrow> map_of fe level = None \<Longrightarrow>
     \<exists>e. fst (first_entry_lines ncbi fe levels lines) = Inl e"
proof (induction levels arbitrary: lines)
  case Nil
  then show ?case by simp
next
  case (Cons a levels)
  show ?case
  proof (cases "getitem fe a")
    case (Inl e)
    then show ?thesis by simp
  next
    case (Inr name)
    with Cons.prems have "a \<noteq> level"
      by (auto simp: getitem_def)
    with Cons.prems have "level \<in> set levels" by simp
    from Cons.IH [OF this Cons.prems(2)] Inr show ?thesis
      by (cases "fst (names_write_line ncbi (take 1 a) name)") (simp_all add: fst_tr_bind)
  qed
qed

lemma first_entry_lines_KeyError:
  "resolver_ok ncbi \<Longrightarrow> level \<in> set levels \<Longrightarrow> map_of fe level = None \<Longrightarrow>
     fst (first_entry_lines ncbi fe levels lines) = Inl KeyError"
proof (induction levels arbitrary: lines)
  case Nil
  then show ?case by simp
next
  case (Cons a levels)
  show ?case
  proof (cases "map_of fe a")
    case None
    then show ?thesis by (simp add: getitem_def)
  next
    case (Some name)
    with Cons.prems have "level \<in> set levels" by auto
    obtain l where l: "names_write_line ncbi (take 1 a) name = (Inr l, [name])"
      using resolver_ok_names_write_line [OF Cons.prems(1)] by blast
    from Cons.IH [OF Cons.prems(1) \<open>level \<in> set levels\<close> Cons.prems(3)] Some l
    show ?thesis
      by (simp add: getitem_def fst_tr_bind)
  qed
qed

subsection \<open>Row access\<close>

lemma getitem_zip_present:
  "length r = length cols \<Longrightarrow> label \<in> set cols \<Longrightarrow> \<exists>v. getitem (zip cols r) label = Inr v"
  using map_of_zip_is_Some [of cols r label] by (auto simp: getitem_def)

lemma getitem_zip_absent:
  "label \<notin> set cols \<Longrightarrow> map_of (zip cols r) label = None"
  by (auto simp: map_of_eq_None_iff dest: set_zip_leftD)

lemma getitem_Inr_iff: "getitem row label = Inr v \<longleftrightarrow> map_of row label = Some v"
  by (simp add: getitem_def split: option.splits)

subsection \<open>When the emitters return\<close>

lemma nodes_row_total:
  "resolver_ok ncbi \<Longrightarrow> \<forall>rank\<in>set ranks. \<exists>v. getitem row rank = Inr v \<Longrightarrow>
     \<exists>st'. fst (nodes_row ncbi row ranks parent st) = Inr st'"
proof (induction ranks arbitrary: parent st)
  case Nil
  then show ?case by simp
next
  case (Cons rank ranks)
  obtain lines written where st: "st = (lines, written)"
    by (cases st)
  from Cons.prems(2) obtain child where child: "getitem row rank = Inr child"
    by auto
  from Cons.prems(2) have rest: "\<forall>rank\<in>set ranks. \<exists>v. getitem row rank = Inr v"
    by simp
  show ?case
  proof (cases "notna child")
    case False
    with child st show ?thesis by simp
  next
    case True
    obtain cid where cid: "getTaxIDFromNCBI child ncbi = (Inr cid, [child])"
      using resolver_ok_getTaxID [OF Cons.prems(1)] by blast
    obtain pid pc where pid: "parent_id_of ncbi parent = (Inr pid, pc)"
      using resolver_ok_parent_id [OF Cons.prems(1)] by blast
    obtain l lc where l: "nodes_write_line ncbi child parent rank = (Inr l, lc)"
      using resolver_ok_nodes_write_line [OF Cons.prems(1)] by blast
    from Cons.IH [OF Cons.prems(1) rest]
    obtain s1 where s1: "fst (nodes_row ncbi row ranks child
        (lines @ [l], insert (cid, pid) written)) = Inr s1"
      by blast
    from Cons.IH [OF Cons.prems(1) rest]
    obtain s2 where s2: "fst (nodes_row ncbi row ranks child (lines, written)) = Inr s2"
      by blast
    from child True cid pid l s1 s2 st show ?thesis
      by simp
  qed
qed

lemma nodes_rows_total:
  "resolver_ok ncbi \<Longrightarrow> \<forall>row\<in>set rs. \<forall>rank\<in>set ranks. \<exists>v. getitem row rank = Inr v \<Longrightarrow>
     \<exists>st'. fst (nodes_rows ncbi rs ranks st) = Inr st'"
proof (induction rs arbitrary: st)
  case Nil
  then show ?case by simp
next
  case (Cons row rs)
  from Cons.prems(2) have "\<forall>rank\<in>set ranks. \<exists>v. getitem row rank = Inr v"
    by simp
  from nodes_row_total [OF Cons.prems(1) this]
  obtain s1 where s1: "fst (nodes_row ncbi row ranks (Name ''root'') st) = Inr s1"
    by blast
  from Cons.prems(2) have "\<forall>row\<in>set rs. \<forall>rank\<in>set ranks. \<exists>v. getitem row rank = Inr v"
    by simp
  from Cons.IH [OF Cons.prems(1) this]
  obtain s2 where "fst (nodes_rows ncbi rs ranks s1) = Inr s2"
    by blast
  with s1 show ?case
    by (simp add: fst_tr_bind)
qed

lemma create_nodes_dump_total:
  assumes "wf_table df" and "resolver_ok ncbi"
  shows "\<exists>lines. fst (create_nodes_dump df ncbi) = Inr lines"
proof -
  have "\<forall>row\<in>set (iterrows df). \<forall>rank\<in>set (available_ranks df). \<exists>v. getitem row rank = Inr v"
    using assms(1)
    by (auto simp: iterrows_def available_ranks_def wf_table_def intro!: getitem_zip_present)
  from nodes_rows_total [OF assms(2) this]
  obtain st where "fst (nodes_rows ncbi (iterrows df) (available_ranks df)
      ([root_nodes_line], {(Name ''1'', Name ''1'')})) = Inr st"
    by blast
  then show ?thesis
    by (simp add: create_nodes_dump_def fst_tr_bind)
qed

lemma first_entry_lines_total:
  "resolver_ok ncbi \<Longrightarrow> \<forall>level\<in>set levels. \<exists>v. getitem fe level = Inr v \<Longrightarrow>
     \<exists>ls. fst (first_entry_lines ncbi fe levels lines) = Inr ls"
proof (induction levels arbitrary: lines)
  case Nil
  then show ?case by simp
next
  case (Cons level levels)
  from Cons.prems(2) obtain name where name: "getitem fe level = Inr name"
    by auto
  obtain l where l: "names_write_line ncbi (take 1 level) name = (Inr l, [name])"
    using resolver_ok_names_write_line [OF Cons.prems(1)] by blast
  from Cons.prems(2) have "\<forall>level\<in>set levels. \<exists>v. getitem fe level = Inr v"
    by simp
  from Cons.IH [OF Cons.prems(1) this]
  obtain ls where "fst (first_entry_lines ncbi fe levels (lines @ [l])) = Inr ls"
    by blast
  with name l show ?case
    by simp
qed

lemma names_row_total:
  "resolver_ok ncbi \<Longrightarrow> \<forall>level\<in>set levels. \<exists>v. getitem row level = Inr v \<Longrightarrow>
   \<forall>level\<in>set levels. \<exists>v. getitem previous level = Inr v \<Longrightarrow>
     \<exists>ls. fst (names_row ncbi row previous levels lines) = Inr ls"
proof (induction levels arbitrary: lines)
  case Nil
  then show ?case by simp
next
  case (Cons level levels)
  from Cons.prems(2) obtain a where a: "getitem row level = Inr a"
    by auto
  from Cons.prems(3) obtain b where b: "getitem previous level = Inr b"
    by auto
  obtain l where l: "names_write_line ncbi (take 1 level) a = (Inr l, [a])"
    using resolver_ok_names_write_line [OF Cons.prems(1)] by blast
  from Cons.prems have r: "\<forall>level\<in>set levels. \<exists>v. getitem row level = Inr v"
    and p: "\<forall>level\<in>set levels. \<exists>v. getitem previous level = Inr v"
    by simp_all
  from Cons.IH [OF Cons.prems(1) r p]
  obtain ls1 where ls1: "fst (names_row ncbi row previous levels (lines @ [l])) = Inr ls1"
    by blast
  from Cons.IH [OF Cons.prems(1) r p]
  obtain ls2 where ls2: "fst (names_row ncbi row previous levels lines) = Inr ls2"
    by blast
  from a b l ls1 ls2 show ?case
    by simp
qed

lemma names_rows_total:
  "resolver_ok ncbi \<Longrightarrow> \<forall>row\<in>set (previous # rs). \<forall>level\<in>set rank_order. \<exists>v. getitem row level = Inr v \<Longrightarrow>
     \<exists>ls. fst (names_rows ncbi rs previous lines) = Inr ls"
proof (induction rs arbitrary: previous lines)
  case Nil
  then show ?case by simp
next
  case (Cons row rs)
  from Cons.prems(2) have r: "\<forall>level\<in>set rank_order. \<exists>v. getitem row level = Inr v"
    and p: "\<forall>level\<in>set rank_order. \<exists>v. getitem previous level = Inr v"
    by simp_all
  from names_row_total [OF Cons.prems(1) r p]
  obtain ls1 where ls1: "fst (names_row ncbi row previous rank_order lines) = Inr ls1"
    by blast
  from Cons.prems(2) have "\<forall>row\<in>set (row # rs). \<forall>level\<in>set rank_order. \<exists>v. getitem row level = Inr v"
    by simp
  from Cons.IH [OF Cons.prems(1) this]
  obtain ls2 where "fst (names_rows ncbi rs row ls1) = Inr ls2"
    by blast
  with ls1 show ?case
    by (simp add: fst_tr_bind)
qed

lemma create_names_dump_total:
  assumes wf: "wf_table df" and ne: "rows df \<noteq> []"
    and cols: "set rank_order \<subseteq> set (columns df)" and ok: "resolver_ok ncbi"
  shows "\<exists>lines. fst (create_names_dump df ncbi) = Inr lines"
proof -
  from ne obtain r rs where rs: "rows df = r # rs"
    by (cases "rows df") auto
  have all: "\<forall>row\<in>set (iterrows df). \<forall>level\<in>set rank_order. \<exists>v. getitem row level = Inr v"
    using wf cols
    by (auto simp: iterrows_def wf_table_def intro!: getitem_zip_present)
  have it: "iterrows df = zip (columns df) r # drop 1 (iterrows df)"
    by (simp add: iterrows_def rs)
  from all it have fe: "\<forall>level\<in>set rank_order. \<exists>v. getitem (zip (columns df) r) level = Inr v"
    by (metis list.set_intros(1))
  from first_entry_lines_total [OF ok fe]
  obtain ls1 where ls1: "fst (first_entry_lines ncbi (zip (columns df) r) rank_order [root_names_line]) = Inr ls1"
    by blast
  from all it have "\<forall>row\<in>set (zip (columns df) r # drop 1 (iterrows df)).
      \<forall>level\<in>set rank_order. \<exists>v. getitem row level = Inr v"
    by metis
  from names_rows_total [OF ok this]
  obtain ls2 where "fst (names_rows ncbi (drop 1 (iterrows df)) (zip (columns df) r) ls1) = Inr ls2"
    by blast
  with ls1 show ?thesis
    by (simp add: create_names_dump_def iloc0_def rs fst_tr_bind)
qed

lemma create_names_dump_empty:
  "rows df = [] \<Longrightarrow> create_names_dump df ncbi = (Inl IndexError, [])"
  by (simp add: create_names_dump_def iloc0_def tr_raise_def)

lemma create_nodes_dump_empty:
  "rows df = [] \<Longrightarrow> create_nodes_dump df ncbi = (Inr [root_nodes_line], [])"
  by (simp add: create_nodes_dump_def iterrows_def tr_return_def)

lemma create_names_dump_missing_column:
  assumes ne: "rows df \<noteq> []" and cols: "\<not> set rank_order \<subseteq> set (columns df)"
  shows "\<exists>e. fst (create_names_dump df ncbi) = Inl e"
    and "resolver_ok ncbi \<Longrightarrow> fst (create_names_dump df ncbi) = Inl KeyError"
proof -
  from ne obtain r rs where rs: "rows df = r # rs"
    by (cases "rows df") auto
  from cols obtain level where level: "level \<in> set rank_order" "level \<notin> set (columns df)"
    by auto
  from level(2) have none: "map_of (zip (columns df) r) level = None"
    by (rule getitem_zip_absent)
  from first_entry_lines_missing_label [OF level(1) none]
  obtain e where "fst (first_entry_lines ncbi (zip (columns df) r) rank_order [root_names_line]) = Inl e"
    by blast
  then show "\<exists>e. fst (create_names_dump df ncbi) = Inl e"
    by (simp add: create_names_dump_def iloc0_def rs fst_tr_bind)
  assume "resolver_ok ncbi"
  from first_entry_lines_KeyError [OF this level(1) none]
  show "fst (create_names_dump df ncbi) = Inl KeyError"
    by (simp add: create_names_dump_def iloc0_def rs fst_tr_bind)
qed

lemma resolver_ok_miss_ncbi: "resolver_ok miss_ncbi"
  by (simp add: resolver_ok_def miss_ncbi_def)

lemma wf_sorted_table: "wf_table sorted_table"
  by (simp add: wf_table_def sorted_table_def rank_order_def)

lemma wf_three_column_table: "wf_table three_column_table"
  by (simp add: wf_table_def three_column_table_def)

text \<open>
  Claim C10. The names emitter reads the first row and indexes all seven rank labels in
  it: on a table without rows it raises \<open>IndexError\<close>, and on a table with rows that lacks
  one of the seven columns it raises too (\<open>KeyError\<close>, unless the resolver raised before
  that column was reached), so no names stream is produced. On a well-formed table with
  at least one row and all seven columns it returns whenever the resolver answers. The
  nodes emitter walks only the rank columns that are present, so with a resolver that
  answers it returns on every well-formed table, and on a table without rows it returns
  the root line alone.
\<close>

theorem create_names_dump_needs_rows_and_seven_columns:
  "(rows df = [] \<longrightarrow>
      create_names_dump df ncbi = (Inl IndexError, []) \<and>
      create_nodes_dump df ncbi = (Inr [root_nodes_line], [])) \<and>
   (rows df \<noteq> [] \<and> \<not> set rank_order \<subseteq> set (columns df) \<longrightarrow>
      (\<exists>e. fst (create_names_dump df ncbi) = Inl e) \<and>
      (resolver_ok ncbi \<longrightarrow> fst (create_names_dump df ncbi) = Inl KeyError)) \<and>
   (wf_table df \<and> rows df \<noteq> [] \<and> set rank_order \<subseteq> set (columns df) \<and> resolver_ok ncbi \<longrightarrow>
      (\<exists>lines. fst (create_names_dump df ncbi) = Inr lines)) \<and>
   (wf_table df \<and> resolver_ok ncbi \<longrightarrow>
      (\<exists>lines. fst (create_nodes_dump df ncbi) = Inr lines))"
  using create_names_dump_empty [of df ncbi] create_nodes_dump_empty [of df ncbi]
    create_names_dump_missing_column [of df ncbi]
    create_names_dump_total [of df ncbi] create_nodes_dump_total [of df ncbi]
  by blast

theorem create_names_dump_needs_rows_and_seven_columns_witness:
  "create_names_dump empty_table miss_ncbi = (Inl IndexError, []) \<and>
   create_nodes_dump empty_table miss_ncbi = (Inr [root_nodes_line], []) \<and>
   fst (create_names_dump three_column_table miss_ncbi) = Inl KeyError \<and>
   (\<exists>lines. fst (create_nodes_dump three_column_table miss_ncbi) = Inr lines) \<and>
   (\<exists>lines. fst (create_names_dump sorted_table miss_ncbi) = Inr lines)"
proof -
  have e: "rows empty_table = []"
    by (simp add: empty_table_def)
  have t: "rows three_column_table \<noteq> []" "\<not> set rank_order \<subseteq> set (columns three_column_table)"
    by (simp_all add: three_column_table_def rank_order_def)
  have s: "rows sorted_table \<noteq> []" "set rank_order \<subseteq> set (columns sorted_table)"
    by (simp_all add: sorted_table_def)
  from create_names_dump_needs_rows_and_seven_columns [of empty_table miss_ncbi] e
  have 1: "create_names_dump empty_table miss_ncbi = (Inl IndexError, []) \<and>
      create_nodes_dump empty_table miss_ncbi = (Inr [root_nodes_line], [])"
    by blast
  from create_names_dump_needs_rows_and_seven_columns [of three_column_table miss_ncbi] t
    resolver_ok_miss_ncbi wf_three_column_table
  have 2: "fst (create_names_dump three_column_table miss_ncbi) = Inl KeyError \<and>
      (\<exists>lines. fst (create_nodes_dump three_column_table miss_ncbi) = Inr lines)"
    by blast
  from create_names_dump_needs_rows_and_seven_columns [of sorted_table miss_ncbi] s
    resolver_ok_miss_ncbi wf_sorted_table
  have 3: "\<exists>lines. fst (create_names_dump sorted_table miss_ncbi) = Inr lines"
    by blast
  from 1 2 3 show ?thesis
    by blast
qed

subsection \<open>The imputer\<close>

lemma str_int_inj_nonneg: "0 \<le> i \<Longrightarrow> 0 \<le> j \<Longrightarrow> str_int i = str_int j \<Longrightarrow> i = j"
  using str_nat_inj [of "nat i" "nat j"] by (simp add: str_int_def)

lemma set_cell_length [simp]: "length (set_cell rs r c v) = length rs"
  by (simp add: set_cell_def)

lemma set_cell_row_length [simp]: "length (set_cell rs r c v ! r') = length (rs ! r')"
  by (cases "r' = r"; cases "r < length rs") (simp_all add: set_cell_def list_update_beyond)

lemma set_cell_other: "(r', c') \<noteq> (r, c) \<Longrightarrow> set_cell rs r c v ! r' ! c' = rs ! r' ! c'"
  by (cases "r' = r"; cases "r < length rs") (auto simp: set_cell_def list_update_beyond)

lemma set_cell_same: "r < length rs \<Longrightarrow> c < length (rs ! r) \<Longrightarrow> set_cell rs r c v ! r ! c = v"
  by (simp add: set_cell_def)

lemma assign_rows_length [simp]: "length (assign_rows ps i rs) = length rs"
  by (induction ps i rs rule: assign_rows.induct) simp_all

lemma assign_rows_row_length [simp]: "length (assign_rows ps i rs ! r) = length (rs ! r)"
  by (induction ps i rs rule: assign_rows.induct) simp_all

lemma assign_rows_other: "p \<notin> set ps \<Longrightarrow> assign_rows ps i rs ! fst p ! snd p = rs ! fst p ! snd p"
proof (induction ps i rs rule: assign_rows.induct)
  case (1 i rs)
  then show ?case by simp
next
  case (2 r c ps i rs)
  from "2.prems" have "p \<notin> set ps" and "(fst p, snd p) \<noteq> (r, c)"
    by auto
  with "2.IH" show ?case
    by (simp add: set_cell_other)
qed

lemma assign_rows_nth:
  "distinct ps \<Longrightarrow> \<forall>p\<in>set ps. fst p < length rs \<and> snd p < length (rs ! fst p) \<Longrightarrow> k < length ps \<Longrightarrow>
     assign_rows ps i rs ! fst (ps ! k) ! snd (ps ! k) = Name (''unknown'' @ str_int (i + int k))"
proof (induction ps i rs arbitrary: k rule: assign_rows.induct)
  case (1 i rs)
  then show ?case by simp
next
  case (2 r c ps i rs)
  let ?rs = "set_cell rs r c (Name (''unknown'' @ str_int i))"
  show ?case
  proof (cases k)
    case 0
    from "2.prems"(1) have "(r, c) \<notin> set ps" by simp
    from assign_rows_other [OF this, of "i + 1" ?rs] "2.prems"(2) 0 show ?thesis
      by (simp add: set_cell_same)
  next
    case (Suc j)
    from "2.prems" have d: "distinct ps" and j: "j < length ps"
      and r: "\<forall>p\<in>set ps. fst p < length ?rs \<and> snd p < length (?rs ! fst p)"
      using Suc by simp_all
    from "2.IH" [OF d r j] Suc show ?thesis
      by (simp add: add.assoc)
  qed
qed

lemma set_isnull_positions:
  "set (isnull_positions rs) = {(r, c). r < length rs \<and> c < length (rs ! r) \<and> isnull (rs ! r ! c)}"
  by (auto simp: isnull_positions_def)

lemma sorted_isnull_row:
  "sorted_wrt rowmajor_less (map (Pair r) (filter P [0..<n]))"
  by (simp add: sorted_wrt_map rowmajor_less_def sorted_wrt_filter)

lemma sorted_concat_rows:
  "sorted_wrt rowmajor_less (concat (map (\<lambda>r. map (Pair r) (filter (P r) [0..<f r])) [0..<n]))"
proof (induction n)
  case 0
  then show ?case by simp
next
  case (Suc n)
  have "\<forall>p\<in>set (concat (map (\<lambda>r. map (Pair r) (filter (P r) [0..<f r])) [0..<n])).
          \<forall>q\<in>set (map (Pair n) (filter (P n) [0..<f n])). rowmajor_less p q"
    by (auto simp: rowmajor_less_def)
  with Suc show ?case
    by (simp add: sorted_wrt_append sorted_isnull_row)
qed

lemma sorted_isnull_positions: "sorted_wrt rowmajor_less (isnull_positions rs)"
  unfolding isnull_positions_def by (rule sorted_concat_rows)

lemma distinct_isnull_positions: "distinct (isnull_positions rs)"
proof -
  have "irreflp rowmajor_less"
    by (simp add: irreflp_def rowmajor_less_def)
  with sorted_isnull_positions [of rs] show ?thesis
    using distinct_conv_nth sorted_wrt_iff_nth_less
    by (metis irreflpD linorder_neqE_nat)
qed

lemma isnull_replace_cell: "isnull (replace_cell c) \<longleftrightarrow> missing c"
  by (simp add: replace_cell_def missing_def isnull_def)

lemma replace_cell_id: "\<not> missing c \<Longrightarrow> replace_cell c = c"
  by (simp add: replace_cell_def missing_def)

lemma iloc_set_length [simp]: "length (iloc_set h a r c v) = length h"
  by (simp add: iloc_set_def)

lemma assign_unknowns_length [simp]: "length (assign_unknowns ps i h a) = length h"
  by (induction ps i h a rule: assign_unknowns.induct) simp_all

lemma assign_unknowns_frame: "b \<noteq> a \<Longrightarrow> assign_unknowns ps i h a ! b = h ! b"
  by (induction ps i h a rule: assign_unknowns.induct) (simp_all add: iloc_set_def)

lemma assign_unknowns_target:
  "a < length h \<Longrightarrow>
     assign_unknowns ps i h a ! a = (h ! a)\<lparr>rows := assign_rows ps i (rows (h ! a))\<rparr>"
  by (induction ps i h a rule: assign_unknowns.induct) (simp_all add: iloc_set_def)

lemma impute_taxons_unfold:
  "impute_taxons h a =
     (assign_unknowns (isnull_positions (map (map replace_cell) (rows (h ! a)))) 1
        (h @ [h ! a, (h ! a)\<lparr>rows := map (map replace_cell) (rows (h ! a))\<rparr>]) (Suc (length h)),
      Suc (length h))"
  by (simp add: impute_taxons_def df_copy_def df_replace_def nth_append)

lemma impute_taxons_result:
  assumes "impute_taxons h a = (h', res)"
  shows "res = Suc (length h)" and "length h' = length h + 2"
    and "h' ! res = (h ! a)\<lparr>rows := assign_rows (isnull_positions (map (map replace_cell) (rows (h ! a)))) 1
            (map (map replace_cell) (rows (h ! a)))\<rparr>"
    and "b < length h \<Longrightarrow> h' ! b = h ! b"
proof -
  from assms show res: "res = Suc (length h)" and "length h' = length h + 2"
    by (auto simp: impute_taxons_unfold)
  let ?h2 = "h @ [h ! a, (h ! a)\<lparr>rows := map (map replace_cell) (rows (h ! a))\<rparr>]"
  have "Suc (length h) < length ?h2" by simp
  from assign_unknowns_target [OF this] assms res
  show "h' ! res = (h ! a)\<lparr>rows := assign_rows (isnull_positions (map (map replace_cell) (rows (h ! a)))) 1
            (map (map replace_cell) (rows (h ! a)))\<rparr>"
    by (auto simp: impute_taxons_unfold nth_append)
  assume b: "b < length h"
  then have "b \<noteq> Suc (length h)" by simp
  from assign_unknowns_frame [OF this] assms b show "h' ! b = h ! b"
    by (auto simp: impute_taxons_unfold nth_append)
qed

lemma impute_taxons_gappy_table:
  "impute_taxons [gappy_table] 0 = ([gappy_table, gappy_table, imputed_table], 2)"
  by (simp add: impute_taxons_def df_copy_def df_replace_def gappy_table_def imputed_table_def
        isnull_positions_def isnull_def replace_cell_def iloc_set_def set_cell_def
        str_int_def str_nat.simps digit_char_def)

text \<open>
  Claim C6. Let \<open>ps\<close> be the positions of the missing cells (null, or the sentinel
  \<open>unknown_rank_name\<close>) of the argument, in row-major order. The table the imputer
  returns has the shape and column labels of the argument; it holds \<open>unknown\<close> followed by
  \<open>k + 1\<close> in decimal at the \<open>k\<close>-th position of \<open>ps\<close> (so the numbering starts at 1 and goes
  up by one per replacement, whatever the column); the labels at two different positions
  of \<open>ps\<close> differ; and every cell that was not missing holds its original value.
\<close>

theorem impute_taxons_fills_missing_cells:
  assumes "taxon_df < length h" and "impute_taxons h taxon_df = (h', result)"
  shows "\<exists>ps. sorted_wrt rowmajor_less ps \<and>
      set ps = {(r, c). r < length (rows (h ! taxon_df)) \<and> c < length (rows (h ! taxon_df) ! r)
                  \<and> missing (rows (h ! taxon_df) ! r ! c)} \<and>
      (\<forall>k<length ps. rows (h' ! result) ! fst (ps ! k) ! snd (ps ! k)
                       = Name (''unknown'' @ str_int (1 + int k))) \<and>
      (\<forall>j<length ps. \<forall>k<length ps. j \<noteq> k \<longrightarrow>
          rows (h' ! result) ! fst (ps ! j) ! snd (ps ! j)
            \<noteq> rows (h' ! result) ! fst (ps ! k) ! snd (ps ! k)) \<and>
      (\<forall>r c. r < length (rows (h ! taxon_df)) \<and> c < length (rows (h ! taxon_df) ! r)
             \<and> \<not> missing (rows (h ! taxon_df) ! r ! c) \<longrightarrow>
          rows (h' ! result) ! r ! c = rows (h ! taxon_df) ! r ! c) \<and>
      columns (h' ! result) = columns (h ! taxon_df) \<and>
      length (rows (h' ! result)) = length (rows (h ! taxon_df)) \<and>
      (\<forall>r<length (rows (h ! taxon_df)).
          length (rows (h' ! result) ! r) = length (rows (h ! taxon_df) ! r))"
proof -
  let ?T = "rows (h ! taxon_df)"
  let ?R = "map (map replace_cell) ?T"
  let ?ps = "isnull_positions ?R"
  have res: "rows (h' ! result) = assign_rows ?ps 1 ?R"
    and cols: "columns (h' ! result) = columns (h ! taxon_df)"
    using impute_taxons_result(3) [OF assms(2)] by simp_all
  have set_ps: "set ?ps = {(r, c). r < length ?T \<and> c < length (?T ! r) \<and> missing (?T ! r ! c)}"
    by (auto simp: set_isnull_positions isnull_replace_cell)
  have range: "\<forall>p\<in>set ?ps. fst p < length ?R \<and> snd p < length (?R ! fst p)"
    by (auto simp: set_isnull_positions)
  have label: "\<forall>k<length ?ps. rows (h' ! result) ! fst (?ps ! k) ! snd (?ps ! k)
                       = Name (''unknown'' @ str_int (1 + int k))"
    using assign_rows_nth [OF distinct_isnull_positions range] by (simp add: res)
  have differ: "\<forall>j<length ?ps. \<forall>k<length ?ps. j \<noteq> k \<longrightarrow>
          rows (h' ! result) ! fst (?ps ! j) ! snd (?ps ! j)
            \<noteq> rows (h' ! result) ! fst (?ps ! k) ! snd (?ps ! k)"
  proof (intro allI impI)
    fix j k
    assume j: "j < length ?ps" and k: "k < length ?ps" and ne: "j \<noteq> k"
    have "str_int (1 + int j) \<noteq> str_int (1 + int k)"
      using str_int_inj_nonneg [of "1 + int j" "1 + int k"] ne by auto
    with label j k show "rows (h' ! result) ! fst (?ps ! j) ! snd (?ps ! j)
            \<noteq> rows (h' ! result) ! fst (?ps ! k) ! snd (?ps ! k)"
      by simp
  qed
  have keep: "\<forall>r c. r < length ?T \<and> c < length (?T ! r) \<and> \<not> missing (?T ! r ! c) \<longrightarrow>
          rows (h' ! result) ! r ! c = ?T ! r ! c"
  proof (intro allI impI)
    fix r c
    assume a: "r < length ?T \<and> c < length (?T ! r) \<and> \<not> missing (?T ! r ! c)"
    then have "(r, c) \<notin> set ?ps"
      by (simp add: set_ps)
    from assign_rows_other [OF this, of 1 ?R] a
    show "rows (h' ! result) ! r ! c = ?T ! r ! c"
      by (simp add: res replace_cell_id)
  qed
  have shape: "length (rows (h' ! result)) = length ?T"
    "\<forall>r<length ?T. length (rows (h' ! result) ! r) = length (?T ! r)"
    by (simp_all add: res)
  from sorted_isnull_positions [of ?R] set_ps label differ keep cols shape
  show ?thesis
    by blast
qed

theorem impute_taxons_fills_missing_cells_witness:
  "(0::nat) < length [gappy_table] \<and>
   impute_taxons [gappy_table] 0 = ([gappy_table, gappy_table, imputed_table], 2) \<and>
   (\<exists>ps. sorted_wrt rowmajor_less ps \<and>
      set ps = {(r, c). r < length (rows gappy_table) \<and> c < length (rows gappy_table ! r)
                  \<and> missing (rows gappy_table ! r ! c)} \<and>
      (\<forall>k<length ps. rows imputed_table ! fst (ps ! k) ! snd (ps ! k)
                       = Name (''unknown'' @ str_int (1 + int k))))"
  using impute_taxons_fills_missing_cells [OF _ impute_taxons_gappy_table] impute_taxons_gappy_table
  by simp blast

text \<open>
  Claim C9. The imputer leaves every DataFrame object that existed before the call as it
  was, the one the caller passed in included: the store after the call is the store
  before it with two new objects appended (the copy, and the table that is returned),
  and the returned reference is one of the new objects.
\<close>

theorem impute_taxons_leaves_argument_unchanged:
  assumes "taxon_df < length h" and "impute_taxons h taxon_df = (h', result)"
  shows "h' ! taxon_df = h ! taxon_df \<and> result \<noteq> taxon_df \<and>
     take (length h) h' = h \<and> (\<forall>b<length h. h' ! b = h ! b) \<and>
     length h \<le> result \<and> result < length h'"
proof -
  have frame: "\<forall>b<length h. h' ! b = h ! b"
    using impute_taxons_result(4) [OF assms(2)] by blast
  moreover have len: "length h' = length h + 2" and res: "result = Suc (length h)"
    using impute_taxons_result(1,2) [OF assms(2)] by simp_all
  moreover from frame len have "take (length h) h' = h"
    by (intro nth_equalityI) simp_all
  ultimately show ?thesis
    using assms(1) by simp
qed

theorem impute_taxons_leaves_argument_unchanged_witness:
  "impute_taxons [gappy_table] 0 = ([gappy_table, gappy_table, imputed_table], 2) \<and>
   (0::nat) < length [gappy_table] \<and>
   [gappy_table, gappy_table, imputed_table] ! 0 = [gappy_table] ! 0"
  using impute_taxons_leaves_argument_unchanged [OF _ impute_taxons_gappy_table]
    impute_taxons_gappy_table
  by simp

subsection \<open>The names emitter follows the predecessor rule\<close>

lemma value_at_getitem: "getitem row label = Inr v \<Longrightarrow> value_at row label = v"
  by (simp add: getitem_def value_at_def split: option.splits)

lemma resolved_eq: "fst (getTaxIDFromNCBI taxa ncbi) = Inr i \<Longrightarrow> resolved ncbi taxa = i"
  by (simp add: resolved_def)

lemma name_line_take [simp]: "name_line i (take (Suc 0) level) name = name_line i level name"
  by (simp add: name_line_def)

lemma names_emitted_Cons:
  "rows df = r # rs \<Longrightarrow>
     names_emitted df =
       map (\<lambda>level. (level, value_at (zip (columns df) r) level)) rank_order
       @ concat (map (\<lambda>(previous, row).
                   map (\<lambda>level. (level, value_at row level))
                     (filter (\<lambda>level. py_ne (value_at row level) (value_at previous level)) rank_order))
                 (zip (zip (columns df) r # map (zip (columns df)) rs) (map (zip (columns df)) rs)))"
  by (simp add: names_emitted_def iterrows_def)

lemma snd_names_write_line [simp]: "snd (names_write_line ncbi level name) = [name]"
  by (simp add: names_write_line_def snd_tr_bind split: sum.splits)

lemma names_write_line_Inr:
  "fst (names_write_line ncbi level name) = Inr l \<Longrightarrow> l = name_line (resolved ncbi name) level name"
  by (auto simp: names_write_line_def fst_tr_bind name_line_def resolved_def split: sum.splits)

lemma first_entry_lines_Inr:
  "fst (first_entry_lines ncbi fe levels lines) = Inr ls \<Longrightarrow>
     ls = lines @ map (\<lambda>level. name_line (resolved ncbi (value_at fe level)) level (value_at fe level)) levels
     \<and> snd (first_entry_lines ncbi fe levels lines) = map (value_at fe) levels"
proof (induction levels arbitrary: lines)
  case Nil
  then show ?case by simp
next
  case (Cons level levels)
  from Cons.prems obtain name where name: "getitem fe level = Inr name"
    by (cases "getitem fe level") simp_all
  from Cons.prems name obtain l where l: "fst (names_write_line ncbi (take 1 level) name) = Inr l"
    by (cases "fst (names_write_line ncbi (take 1 level) name)") (simp_all add: fst_tr_bind)
  from Cons.prems name l have "fst (first_entry_lines ncbi fe levels (lines @ [l])) = Inr ls"
    by (simp add: fst_tr_bind)
  from Cons.IH [OF this] name l names_write_line_Inr [OF l] show ?case
    by (simp add: value_at_getitem snd_tr_bind)
qed

lemma names_row_Inr:
  "fst (names_row ncbi row previous levels lines) = Inr ls \<Longrightarrow>
     ls = lines @ map (\<lambda>level. name_line (resolved ncbi (value_at row level)) level (value_at row level))
                    (filter (\<lambda>level. py_ne (value_at row level) (value_at previous level)) levels)
     \<and> snd (names_row ncbi row previous levels lines)
         = map (value_at row) (filter (\<lambda>level. py_ne (value_at row level) (value_at previous level)) levels)"
proof (induction levels arbitrary: lines)
  case Nil
  then show ?case by simp
next
  case (Cons level levels)
  from Cons.prems obtain a where a: "getitem row level = Inr a"
    by (cases "getitem row level") simp_all
  from Cons.prems a obtain b where b: "getitem previous level = Inr b"
    by (cases "getitem previous level") simp_all
  show ?case
  proof (cases "py_ne a b")
    case True
    from Cons.prems a b True obtain l where l: "fst (names_write_line ncbi (take 1 level) a) = Inr l"
      by (cases "fst (names_write_line ncbi (take 1 level) a)") (simp_all add: fst_tr_bind)
    from Cons.prems a b True l have "fst (names_row ncbi row previous levels (lines @ [l])) = Inr ls"
      by (simp add: fst_tr_bind)
    from Cons.IH [OF this] a b True l names_write_line_Inr [OF l] show ?thesis
      by (simp add: value_at_getitem snd_tr_bind)
  next
    case False
    from Cons.prems a b False have "fst (names_row ncbi row previous levels lines) = Inr ls"
      by simp
    from Cons.IH [OF this] a b False show ?thesis
      by (simp add: value_at_getitem)
  qed
qed

lemma names_rows_Inr:
  "fst (names_rows ncbi rs previous lines) = Inr ls \<Longrightarrow>
     ls = lines @ concat (map (\<lambda>(previous, row).
                 map (\<lambda>level. name_line (resolved ncbi (value_at row level)) level (value_at row level))
                   (filter (\<lambda>level. py_ne (value_at row level) (value_at previous level)) rank_order))
               (zip (previous # rs) rs))
     \<and> snd (names_rows ncbi rs previous lines)
         = concat (map (\<lambda>(previous, row).
                 map (value_at row)
                   (filter (\<lambda>level. py_ne (value_at row level) (value_at previous level)) rank_order))
               (zip (previous # rs) rs))"
proof (induction rs arbitrary: previous lines)
  case Nil
  then show ?case by simp
next
  case (Cons row rs)
  from Cons.prems obtain ls1 where ls1: "fst (names_row ncbi row previous rank_order lines) = Inr ls1"
    by (cases "fst (names_row ncbi row previous rank_order lines)") (simp_all add: fst_tr_bind)
  with Cons.prems have "fst (names_rows ncbi rs row ls1) = Inr ls"
    by (simp add: fst_tr_bind)
  from Cons.IH [OF this] names_row_Inr [OF ls1] ls1 show ?case
    by (simp add: snd_tr_bind)
qed

lemma create_names_dump_Inr:
  assumes "fst (create_names_dump df ncbi) = Inr lines"
  shows "lines = names_by_predecessor_rule ncbi df"
    and "snd (create_names_dump df ncbi) = map snd (names_emitted df)"
proof -
  from assms obtain r rs where rs: "rows df = r # rs"
    by (cases "rows df") (simp_all add: create_names_dump_def iloc0_def)
  let ?fe = "zip (columns df) r"
  let ?rest = "map (zip (columns df)) rs"
  have it: "drop 1 (iterrows df) = ?rest"
    by (simp add: iterrows_def rs)
  from assms rs obtain ls1 where
    ls1: "fst (first_entry_lines ncbi ?fe rank_order [root_names_line]) = Inr ls1"
    by (cases "fst (first_entry_lines ncbi ?fe rank_order [root_names_line])")
       (simp_all add: create_names_dump_def iloc0_def fst_tr_bind)
  with assms rs it have 2: "fst (names_rows ncbi ?rest ?fe ls1) = Inr lines"
    by (simp add: create_names_dump_def iloc0_def fst_tr_bind)
  from first_entry_lines_Inr [OF ls1] names_rows_Inr [OF 2]
  show "lines = names_by_predecessor_rule ncbi df"
    by (simp add: names_by_predecessor_rule_def names_emitted_Cons [OF rs] map_concat o_def
          split_def)
  have "snd (create_names_dump df ncbi)
      = snd (first_entry_lines ncbi ?fe rank_order [root_names_line]) @ snd (names_rows ncbi ?rest ?fe ls1)"
    using ls1 it by (simp add: create_names_dump_def iloc0_def rs snd_tr_bind)
  with first_entry_lines_Inr [OF ls1] names_rows_Inr [OF 2]
  show "snd (create_names_dump df ncbi) = map snd (names_emitted df)"
    by (simp add: names_emitted_Cons [OF rs] map_concat o_def split_def)
qed

subsection \<open>The nodes emitter follows the walk\<close>

lemma emit_new_append:
  "emit_new key (xs @ ys) seen = emit_new key xs seen @ emit_new key ys (seen \<union> key ` set xs)"
  by (induction xs arbitrary: seen) (simp_all add: insert_absorb)

lemma walk_calls_append:
  "walk_calls ncbi (xs @ ys) seen
     = walk_calls ncbi xs seen @ walk_calls ncbi ys (seen \<union> pair_of ncbi ` set xs)"
  by (induction xs arbitrary: seen) (simp_all add: insert_absorb)

lemma parent_id_of_Inr:
  "fst (parent_id_of ncbi parent) = Inr pid \<Longrightarrow> pid = parent_ident ncbi parent"
  by (auto simp: parent_id_of_def parent_ident_def resolved_def split: if_splits)

lemma snd_parent_id_of:
  "snd (parent_id_of ncbi parent) = (if parent \<noteq> Name ''root'' then [parent] else [])"
  by (simp add: parent_id_of_def)

lemma nodes_write_line_Inr:
  "fst (nodes_write_line ncbi child parent rank) = Inr l \<Longrightarrow>
     l = step_line ncbi (child, parent, rank) \<and>
     snd (nodes_write_line ncbi child parent rank) = queries (child, parent, rank)"
proof -
  assume a: "fst (nodes_write_line ncbi child parent rank) = Inr l"
  then obtain cid where cid: "fst (getTaxIDFromNCBI child ncbi) = Inr cid"
    by (cases "fst (getTaxIDFromNCBI child ncbi)") (simp_all add: nodes_write_line_def fst_tr_bind)
  with a obtain pid where pid: "fst (parent_id_of ncbi parent) = Inr pid"
    by (cases "fst (parent_id_of ncbi parent)") (simp_all add: nodes_write_line_def fst_tr_bind)
  from a cid pid resolved_eq [OF cid] parent_id_of_Inr [OF pid] show ?thesis
    by (simp add: nodes_write_line_def fst_tr_bind snd_tr_bind step_line_def pair_of_def
          node_line_def rank_text_def queries_def snd_parent_id_of)
qed

lemma nodes_row_Inr:
  "fst (nodes_row ncbi row ranks parent (lines, written)) = Inr st' \<Longrightarrow>
     st' = (lines @ map (step_line ncbi) (emit_new (pair_of ncbi) (row_steps row ranks parent) written),
            written \<union> pair_of ncbi ` set (row_steps row ranks parent))
     \<and> snd (nodes_row ncbi row ranks parent (lines, written))
         = walk_calls ncbi (row_steps row ranks parent) written"
proof (induction ranks arbitrary: parent lines written)
  case Nil
  then show ?case by simp
next
  case (Cons rank ranks)
  from Cons.prems obtain child where child: "getitem row rank = Inr child"
    by (cases "getitem row rank") simp_all
  then have v: "value_at row rank = child"
    by (rule value_at_getitem)
  show ?case
  proof (cases "notna child")
    case False
    with child have "nodes_row ncbi row (rank # ranks) parent (lines, written)
        = tr_return (lines, written)"
      by simp
    with Cons.prems False v show ?thesis
      by (simp del: nodes_row.simps)
  next
    case True
    from Cons.prems child True obtain cid where cid: "fst (getTaxIDFromNCBI child ncbi) = Inr cid"
      by (cases "fst (getTaxIDFromNCBI child ncbi)") (simp_all add: fst_tr_bind)
    from Cons.prems child True cid obtain pid where pid: "fst (parent_id_of ncbi parent) = Inr pid"
      by (cases "fst (parent_id_of ncbi parent)") (simp_all add: fst_tr_bind)
    have pair: "pair_of ncbi (child, parent, rank) = (cid, pid)"
      using resolved_eq [OF cid] parent_id_of_Inr [OF pid] by (simp add: pair_of_def)
    have q: "snd (getTaxIDFromNCBI child ncbi) @ snd (parent_id_of ncbi parent)
        = queries (child, parent, rank)"
      by (simp add: queries_def snd_parent_id_of)
    show ?thesis
    proof (cases "(cid, pid) \<in> written")
      case True
      with Cons.prems child \<open>notna child\<close> cid pid
      have "fst (nodes_row ncbi row ranks child (lines, written)) = Inr st'"
        by (simp add: fst_tr_bind)
      from Cons.IH [OF this] True child \<open>notna child\<close> cid pid v pair q show ?thesis
        by (simp add: snd_tr_bind insert_absorb)
    next
      case False
      with Cons.prems child \<open>notna child\<close> cid pid
      obtain l where l: "fst (nodes_write_line ncbi child parent rank) = Inr l"
        by (cases "fst (nodes_write_line ncbi child parent rank)") (simp_all add: fst_tr_bind)
      with Cons.prems child \<open>notna child\<close> cid pid False
      have "fst (nodes_row ncbi row ranks child (lines @ [l], insert (cid, pid) written)) = Inr st'"
        by (simp add: fst_tr_bind)
      from Cons.IH [OF this] False child \<open>notna child\<close> cid pid v pair q l
        nodes_write_line_Inr [OF l]
      show ?thesis
        by (simp add: snd_tr_bind)
    qed
  qed
qed

lemma nodes_rows_Inr:
  "fst (nodes_rows ncbi rs ranks (lines, written)) = Inr st' \<Longrightarrow>
     st' = (lines @ map (step_line ncbi)
               (emit_new (pair_of ncbi) (concat (map (\<lambda>row. row_steps row ranks (Name ''root'')) rs)) written),
            written \<union> pair_of ncbi ` set (concat (map (\<lambda>row. row_steps row ranks (Name ''root'')) rs)))
     \<and> snd (nodes_rows ncbi rs ranks (lines, written))
         = walk_calls ncbi (concat (map (\<lambda>row. row_steps row ranks (Name ''root'')) rs)) written"
proof (induction rs arbitrary: lines written)
  case Nil
  then show ?case by simp
next
  case (Cons row rs)
  from Cons.prems obtain s1 where
    s1: "fst (nodes_row ncbi row ranks (Name ''root'') (lines, written)) = Inr s1"
    by (cases "fst (nodes_row ncbi row ranks (Name ''root'') (lines, written))")
       (simp_all add: fst_tr_bind)
  obtain l1 w1 where lw: "s1 = (l1, w1)"
    by (cases s1)
  from Cons.prems s1 lw have "fst (nodes_rows ncbi rs ranks (l1, w1)) = Inr st'"
    by (simp add: fst_tr_bind)
  from Cons.IH [OF this] nodes_row_Inr [OF s1] s1 lw show ?case
    by (simp add: snd_tr_bind emit_new_append walk_calls_append image_Un Un_assoc)
qed

lemma create_nodes_dump_Inr:
  assumes "fst (create_nodes_dump df ncbi) = Inr lines"
  shows "lines = nodes_by_walk ncbi df"
    and "snd (create_nodes_dump df ncbi) = walk_calls ncbi (table_steps df) {root_pair}"
proof -
  let ?m = "nodes_rows ncbi (iterrows df) (available_ranks df)
                ([root_nodes_line], {(Name ''1'', Name ''1'')})"
  from assms obtain st where st: "fst ?m = Inr st"
    by (cases "fst ?m") (simp_all add: create_nodes_dump_def fst_tr_bind)
  with assms have l: "lines = fst st"
    by (simp add: create_nodes_dump_def fst_tr_bind)
  from nodes_rows_Inr [OF st] l show "lines = nodes_by_walk ncbi df"
    by (simp add: nodes_by_walk_def nodes_emitted_def table_steps_def root_pair_def)
  from nodes_rows_Inr [OF st] st
  show "snd (create_nodes_dump df ncbi) = walk_calls ncbi (table_steps df) {root_pair}"
    by (simp add: create_nodes_dump_def snd_tr_bind table_steps_def root_pair_def)
qed

subsection \<open>Evaluating the emitters on sample tables\<close>

lemma tr_bind_weak_cong: "m = m' \<Longrightarrow> tr_bind m f = tr_bind m' f"
  by simp

lemma tr_bind_eval: "tr_bind (Inr x, c) f = (case f x of (r, c') \<Rightarrow> (r, c @ c'))"
  by (simp add: tr_bind_def)

lemmas eval_defs = create_names_dump_def create_nodes_dump_def iloc0_def iterrows_def
  rank_order_def getitem_def names_write_line_def nodes_write_line_def parent_id_of_def
  getTaxIDFromNCBI_def get_name_translator_def available_ranks_def
  miss_ncbi_def py_ne_def notna_def tr_return_def name_line_def node_line_def
  lower_def lower_char_def tr_bind_eval

lemma names_sorted_table:
  "create_names_dump sorted_table miss_ncbi =
     (Inr sorted_table_names,
      [Name ''K'', Name ''P'', Name ''C'', Name ''O'', Name ''F1'', Name ''G1'', Name ''S1'',
       Name ''G2'', Name ''S2'', Name ''F2'', Name ''G1'', Name ''S3''])"
  by (simp add: eval_defs sorted_table_def sorted_table_names_def del: tr_bind_Inr
        cong: tr_bind_weak_cong)

lemma nodes_sorted_table:
  "fst (create_nodes_dump sorted_table miss_ncbi) = Inr sorted_table_nodes"
  by (simp add: eval_defs sorted_table_def sorted_table_nodes_def del: tr_bind_Inr
        cong: tr_bind_weak_cong)

subsection \<open>The predecessor rule with plain inequality\<close>










subsection \<open>The root lines\<close>

lemma not_root_names_line: "name \<noteq> Name ''root'' \<Longrightarrow> name_line i level name \<noteq> root_names_line"
proof
  assume n: "name \<noteq> Name ''root''" and e: "name_line i level name = root_names_line"
  from n have "CHR ''_'' \<in> set (name_line i level name)"
    by (simp add: name_line_def)
  moreover have "CHR ''_'' \<notin> set root_names_line"
    by (simp add: root_names_line_def sep_def TAB_def NL_def)
  ultimately show False using e by simp
qed

lemma not_root_nodes_line:
  "rank \<in> set rank_order \<Longrightarrow> node_line c p (rank_text rank) \<noteq> root_nodes_line"
proof
  assume r: "rank \<in> set rank_order" and e: "node_line c p (rank_text rank) = root_nodes_line"
  from e have "rev (node_line c p (rank_text rank)) = rev root_nodes_line"
    by simp
  with r show False
    by (auto simp: rank_order_def node_line_def rank_text_def root_nodes_line_def lower_def
          lower_char_def)
qed

lemma value_at_zip: "value_at (zip cols r) label \<in> insert PyNone (set r)"
  by (auto simp: value_at_def split: option.splits dest!: map_of_SomeD set_zip_rightD)

lemma names_emitted_values:
  assumes "(level, v) \<in> set (names_emitted df)"
  shows "level \<in> set rank_order \<and> (\<exists>row\<in>set (iterrows df). v = value_at row level)"
proof -
  from assms consider
    (first) row where "row \<in> set (take 1 (iterrows df))" "level \<in> set rank_order"
      "v = value_at row level"
  | (later) previous row where "(previous, row) \<in> set (zip (iterrows df) (drop 1 (iterrows df)))"
      "level \<in> set rank_order" "v = value_at row level"
    by (auto simp: names_emitted_def Let_def)
  then show ?thesis
  proof cases
    case first
    then show ?thesis by (auto dest: in_set_takeD)
  next
    case later
    then show ?thesis by (auto dest!: set_zip_rightD in_set_dropD)
  qed
qed

lemma names_emitted_cells:
  assumes "(level, v) \<in> set (names_emitted df)"
  shows "v = PyNone \<or> (\<exists>row\<in>set (rows df). v \<in> set row)"
proof -
  from names_emitted_values [OF assms] obtain row where
    "row \<in> set (iterrows df)" "v = value_at row level"
    by blast
  then show ?thesis
    using value_at_zip by (fastforce simp: iterrows_def)
qed

lemma set_emit_new: "set (emit_new key xs seen) \<subseteq> set xs"
  by (induction xs arbitrary: seen) auto

lemma row_steps_rank: "step \<in> set (row_steps row ranks parent) \<Longrightarrow> snd (snd step) \<in> set ranks"
  by (induction ranks arbitrary: parent) (auto split: if_splits)

lemma table_steps_rank: "step \<in> set (table_steps df) \<Longrightarrow> snd (snd step) \<in> set rank_order"
  by (auto simp: table_steps_def available_ranks_def dest: row_steps_rank)

lemma count_list_0: "x \<notin> set xs \<Longrightarrow> count_list xs x = 0"
  by (induction xs) auto

lemma names_root_cell_table:
  "fst (create_names_dump root_cell_table root_ncbi) = Inr root_cell_names"
  by (simp add: create_names_dump_def iloc0_def iterrows_def rank_order_def getitem_def
        names_write_line_def getTaxIDFromNCBI_def get_name_translator_def root_ncbi_def
        tr_return_def name_line_def tr_bind_eval root_cell_table_def root_cell_names_def
        str_int_def str_nat.simps digit_char_def
        del: tr_bind_Inr cong: tr_bind_weak_cong)

lemma count_root_cell_names: "count_list root_cell_names root_names_line = 2"
  by (simp add: root_cell_names_def name_line_def root_names_line_def fmt_def sep_def)

text \<open>
  Claim C3, as amended. Whenever an emitter returns a stream, the stream starts with the
  root line. In the nodes stream the root line occurs exactly once. In the names stream
  it occurs exactly once provided no cell of the table holds the name \<open>root\<close>. (On a
  table without records the names emitter raises and returns no stream.)
\<close>

theorem root_line_first:
  "(fst (create_names_dump df ncbi) = Inr lines \<longrightarrow>
      lines \<noteq> [] \<and> hd lines = root_names_line \<and>
      ((\<forall>row\<in>set (rows df). Name ''root'' \<notin> set row) \<longrightarrow> count_list lines root_names_line = 1)) \<and>
   (fst (create_nodes_dump df ncbi) = Inr nlines \<longrightarrow>
      nlines \<noteq> [] \<and> hd nlines = root_nodes_line \<and> count_list nlines root_nodes_line = 1)"
proof (intro conjI impI)
  assume a: "fst (create_names_dump df ncbi) = Inr lines"
  from create_names_dump_Inr(1) [OF a]
  have l: "lines = root_names_line # map (\<lambda>(level, v). name_line (resolved ncbi v) level v) (names_emitted df)"
    by (simp add: names_by_predecessor_rule_def)
  then show "lines \<noteq> []" and "hd lines = root_names_line"
    by simp_all
  assume noroot: "\<forall>row\<in>set (rows df). Name ''root'' \<notin> set row"
  have "root_names_line \<notin> set (map (\<lambda>(level, v). name_line (resolved ncbi v) level v) (names_emitted df))"
  proof
    assume "root_names_line \<in> set (map (\<lambda>(level, v). name_line (resolved ncbi v) level v) (names_emitted df))"
    then obtain level v where lv: "(level, v) \<in> set (names_emitted df)"
      and eq: "name_line (resolved ncbi v) level v = root_names_line"
      by auto
    from names_emitted_cells [OF lv] noroot have "v \<noteq> Name ''root''"
      by auto
    from not_root_names_line [OF this] eq show False
      by blast
  qed
  with l show "count_list lines root_names_line = 1"
    by (simp add: count_list_0)
next
  assume a: "fst (create_nodes_dump df ncbi) = Inr nlines"
  from create_nodes_dump_Inr(1) [OF a]
  have l: "nlines = root_nodes_line # map (step_line ncbi) (nodes_emitted ncbi df)"
    by (simp add: nodes_by_walk_def)
  then show "nlines \<noteq> []" and "hd nlines = root_nodes_line"
    by simp_all
  have "root_nodes_line \<notin> set (map (step_line ncbi) (nodes_emitted ncbi df))"
  proof
    assume "root_nodes_line \<in> set (map (step_line ncbi) (nodes_emitted ncbi df))"
    then obtain step where s: "step \<in> set (nodes_emitted ncbi df)"
      and eq: "step_line ncbi step = root_nodes_line"
      by auto
    from s have "step \<in> set (table_steps df)"
      using set_emit_new by (fastforce simp: nodes_emitted_def)
    from not_root_nodes_line [OF table_steps_rank [OF this]] eq show False
      by (simp add: step_line_def)
  qed
  with l show "count_list nlines root_nodes_line = 1"
    by (simp add: count_list_0)
qed

theorem root_line_first_witness:
  "fst (create_names_dump sorted_table miss_ncbi) = Inr sorted_table_names \<and>
   fst (create_nodes_dump sorted_table miss_ncbi) = Inr sorted_table_nodes \<and>
   hd sorted_table_names = root_names_line \<and> count_list sorted_table_names root_names_line = 1 \<and>
   hd sorted_table_nodes = root_nodes_line \<and> count_list sorted_table_nodes root_nodes_line = 1"
proof -
  have n: "fst (create_names_dump sorted_table miss_ncbi) = Inr sorted_table_names"
    by (simp add: names_sorted_table)
  have r: "\<forall>row\<in>set (rows sorted_table). Name ''root'' \<notin> set row"
    by (simp add: sorted_table_def)
  from root_line_first [of sorted_table miss_ncbi sorted_table_names sorted_table_nodes]
    n nodes_sorted_table r
  show ?thesis
    by simp
qed

theorem root_line_first_counterexample:
  "fst (create_names_dump empty_table miss_ncbi) = Inl IndexError \<and>
   fst (create_names_dump root_cell_table root_ncbi) = Inr root_cell_names \<and>
   count_list root_cell_names root_names_line = 2"
  by (simp add: create_names_dump_empty empty_table_def names_root_cell_table
        count_root_cell_names)

subsection \<open>Gaps\<close>

lemma nodes_row_gap:
  "getitem row rank = Inr v \<Longrightarrow> \<not> notna v \<Longrightarrow>
     nodes_row ncbi row (pre @ rank # post) parent st = nodes_row ncbi row pre parent st"
proof (induction pre arbitrary: parent st)
  case Nil
  then show ?case by (cases st) simp
next
  case (Cons a pre)
  note IH = Cons.IH [OF Cons.prems]
  show ?case
    by (cases st) (simp add: IH cong: sum.case_cong if_cong)
qed

lemma names_gap_table: "fst (create_names_dump gap_table miss_ncbi) = Inr gap_table_names"
  by (simp add: eval_defs gap_table_def gap_table_names_def del: tr_bind_Inr
        cong: tr_bind_weak_cong)

text \<open>
  The walk of the nodes emitter over one record stops at the first rank whose value is
  missing: over the ranks \<open>pre @ rank # post\<close>, with the record's value at \<open>rank\<close>
  missing, it returns the lines, the set of written pairs and the resolver queries of
  the walk over \<open>pre\<close> alone, whatever the record holds at the ranks of \<open>post\<close>.
\<close>

theorem nodes_walk_stops_at_gap:
  assumes "getitem row rank = Inr v" and "\<not> notna v"
  shows "nodes_row ncbi row (pre @ rank # post) parent st = nodes_row ncbi row pre parent st"
  using assms by (rule nodes_row_gap)

theorem nodes_walk_stops_at_gap_witness:
  "getitem gap_row ''phylum'' = Inr NaN \<and> \<not> notna NaN \<and>
   nodes_row miss_ncbi gap_row
       ([''kingdom''] @ ''phylum'' # [''class'', ''order'', ''family'', ''genus'', ''species''])
       (Name ''root'') ([root_nodes_line], {root_pair})
     = nodes_row miss_ncbi gap_row [''kingdom''] (Name ''root'') ([root_nodes_line], {root_pair}) \<and>
   nodes_row miss_ncbi gap_row [''kingdom''] (Name ''root'') ([root_nodes_line], {root_pair})
     = (Inr ([root_nodes_line, node_line (Name ''A'') (Name ''1'') ''kingdom''],
             {(Name ''A'', Name ''1''), root_pair}),
        [Name ''A'', Name ''A''])"
proof -
  have g: "getitem gap_row ''phylum'' = Inr NaN"
    by (simp add: gap_row_def rank_order_def getitem_def)
  have n: "\<not> notna NaN"
    by (simp add: notna_def)
  have e: "nodes_row miss_ncbi gap_row [''kingdom''] (Name ''root'') ([root_nodes_line], {root_pair})
     = (Inr ([root_nodes_line, node_line (Name ''A'') (Name ''1'') ''kingdom''],
             {(Name ''A'', Name ''1''), root_pair}),
        [Name ''A'', Name ''A''])"
    by (simp add: eval_defs gap_row_def root_pair_def del: tr_bind_Inr cong: tr_bind_weak_cong)
  from nodes_walk_stops_at_gap [OF g n, of miss_ncbi "[''kingdom'']"
      "[''class'', ''order'', ''family'', ''genus'', ''species'']" "Name ''root''"
      "([root_nodes_line], {root_pair})"] g n e
  show ?thesis
    by simp
qed

subsection \<open>Resolver queries\<close>

lemma length_queries: "length (queries step) \<le> 2"
  by (simp add: queries_def)

lemma length_concat_queries: "length (concat (map queries xs)) \<le> 2 * length xs"
proof (induction xs)
  case Nil
  then show ?case by simp
next
  case (Cons x xs)
  with length_queries [of x] show ?case by simp
qed

lemma length_emit_new: "length (emit_new key xs seen) \<le> length xs"
  by (induction xs arbitrary: seen) (auto simp: le_SucI)

lemma length_walk_calls:
  "length (walk_calls ncbi xs seen)
     = length (concat (map queries xs))
       + length (concat (map queries (emit_new (pair_of ncbi) xs seen)))"
  by (induction xs arbitrary: seen) simp_all

lemma length_walk_calls_le: "length (walk_calls ncbi xs seen) \<le> 4 * length xs"
proof -
  have "length (concat (map queries (emit_new (pair_of ncbi) xs seen)))
      \<le> 2 * length (emit_new (pair_of ncbi) xs seen)"
    by (rule length_concat_queries)
  also have "\<dots> \<le> 2 * length xs"
    using length_emit_new [of "pair_of ncbi" xs seen] by simp
  finally show ?thesis
    using length_concat_queries [of xs] by (simp add: length_walk_calls)
qed

lemma nodes_one_cell_table:
  "create_nodes_dump one_cell_table miss_ncbi =
     (Inr [root_nodes_line, node_line (Name ''A'') (Name ''1'') ''kingdom''],
      [Name ''A'', Name ''A''])"
  by (simp add: eval_defs one_cell_table_def del: tr_bind_Inr cong: tr_bind_weak_cong)

text \<open>
  Claim C8, as amended. In a pass of the names emitter that returns, the resolver is
  queried exactly once per emitted name line, with that line's name. In a pass of the
  nodes emitter that returns, every step of a walk queries the resolver for the child
  and, unless the parent is the root sentinel, for the parent; a step whose pair is new
  makes the same queries once more when its line is written. So the nodes pass makes at
  most four queries per step, and one occurrence of a name can be resolved more than
  once.
\<close>

theorem resolver_queries_per_pass:
  "(fst (create_names_dump df ncbi) = Inr lines \<longrightarrow>
      snd (create_names_dump df ncbi) = map snd (names_emitted df) \<and>
      length (snd (create_names_dump df ncbi)) = length lines - 1) \<and>
   (fst (create_nodes_dump df ncbi) = Inr nlines \<longrightarrow>
      snd (create_nodes_dump df ncbi) = walk_calls ncbi (table_steps df) {root_pair} \<and>
      length (snd (create_nodes_dump df ncbi))
        = length (concat (map queries (table_steps df)))
          + length (concat (map queries (nodes_emitted ncbi df))) \<and>
      length (snd (create_nodes_dump df ncbi)) \<le> 4 * length (table_steps df))"
proof (intro conjI impI)
  assume a: "fst (create_names_dump df ncbi) = Inr lines"
  from create_names_dump_Inr [OF a]
  show "snd (create_names_dump df ncbi) = map snd (names_emitted df)"
    and "length (snd (create_names_dump df ncbi)) = length lines - 1"
    by (simp_all add: names_by_predecessor_rule_def)
next
  assume a: "fst (create_nodes_dump df ncbi) = Inr nlines"
  note c = create_nodes_dump_Inr(2) [OF a]
  from c show "snd (create_nodes_dump df ncbi) = walk_calls ncbi (table_steps df) {root_pair}" .
  from c show "length (snd (create_nodes_dump df ncbi))
        = length (concat (map queries (table_steps df)))
          + length (concat (map queries (nodes_emitted ncbi df)))"
    by (simp add: length_walk_calls nodes_emitted_def)
  from c show "length (snd (create_nodes_dump df ncbi)) \<le> 4 * length (table_steps df)"
    by (simp add: length_walk_calls_le)
qed

theorem resolver_queries_per_pass_witness:
  "fst (create_names_dump sorted_table miss_ncbi) = Inr sorted_table_names \<and>
   length (snd (create_names_dump sorted_table miss_ncbi)) = length sorted_table_names - 1 \<and>
   fst (create_nodes_dump one_cell_table miss_ncbi)
     = Inr [root_nodes_line, node_line (Name ''A'') (Name ''1'') ''kingdom''] \<and>
   snd (create_nodes_dump one_cell_table miss_ncbi)
     = walk_calls miss_ncbi (table_steps one_cell_table) {root_pair}"
proof -
  have n: "fst (create_names_dump sorted_table miss_ncbi) = Inr sorted_table_names"
    by (simp add: names_sorted_table)
  have d: "fst (create_nodes_dump one_cell_table miss_ncbi)
     = Inr [root_nodes_line, node_line (Name ''A'') (Name ''1'') ''kingdom'']"
    by (simp add: nodes_one_cell_table)
  from resolver_queries_per_pass [of sorted_table miss_ncbi sorted_table_names nlines] n
  have 1: "length (snd (create_names_dump sorted_table miss_ncbi)) = length sorted_table_names - 1"
    by blast
  from resolver_queries_per_pass [of one_cell_table miss_ncbi lines
      "[root_nodes_line, node_line (Name ''A'') (Name ''1'') ''kingdom'']"] d
  have 2: "snd (create_nodes_dump one_cell_table miss_ncbi)
     = walk_calls miss_ncbi (table_steps one_cell_table) {root_pair}"
    by blast
  from n d 1 2 show ?thesis
    by blast
qed

theorem resolver_queried_twice_counterexample:
  "rows one_cell_table = [[Name ''A'']] \<and>
   snd (create_nodes_dump one_cell_table miss_ncbi) = [Name ''A'', Name ''A'']"
  using nodes_one_cell_table by (simp add: one_cell_table_def)

subsection \<open>Pairs and fields\<close>

lemma set_map_emit_new: "key ` set (emit_new key xs seen) = key ` set xs - seen"
  by (induction xs arbitrary: seen) auto

lemma distinct_emit_new: "distinct (map key (emit_new key xs seen))"
proof (induction xs arbitrary: seen)
  case Nil
  then show ?case by simp
next
  case (Cons x xs)
  have "key x \<notin> key ` set (emit_new key xs (insert (key x) seen))"
    by (simp add: set_map_emit_new)
  with Cons show ?case by simp
qed

lemma TAB_str_nat: "TAB \<notin> set (str_nat n)"
proof (induction n rule: str_nat.induct)
  case (1 n)
  have d: "\<And>k. k < 10 \<Longrightarrow> digit_char k \<noteq> TAB"
  proof -
    fix k :: nat
    assume "k < 10"
    then have "digit_char k \<in> set ''0123456789''"
      unfolding digit_char_def by (intro nth_mem) simp
    then show "digit_char k \<noteq> TAB"
      by (auto simp: TAB_def)
  qed
  show ?case
  proof (cases "n < 10")
    case True
    with d [of n] show ?thesis
      by (simp add: str_nat.simps [of n])
  next
    case False
    with 1 d [of "n mod 10"] show ?thesis
      by (simp add: str_nat.simps [of n])
  qed
qed

lemma TAB_str_int: "TAB \<notin> set (str_int i)"
  by (simp add: str_int_def TAB_str_nat) (simp add: TAB_def)

lemma resolved_cases:
  "resolved ncbi v = v \<or> (\<exists>i. resolved ncbi v = Name (str_int i))"
proof (cases "ncbi [v]")
  case (Inl e)
  then show ?thesis
    by (simp add: resolved_def getTaxIDFromNCBI_def get_name_translator_def)
next
  case (Inr d)
  then show ?thesis
    by (cases d; cases "snd (hd d)")
       (auto simp: resolved_def getTaxIDFromNCBI_def get_name_translator_def tr_return_def tr_raise_def)
qed

lemma TAB_resolved: "TAB \<notin> set (fmt v) \<Longrightarrow> TAB \<notin> set (fmt (resolved ncbi v))"
  using resolved_cases [of ncbi v] by (auto simp: fmt_def TAB_str_int)

lemma notna_resolved: "notna v \<Longrightarrow> notna (resolved ncbi v)"
  using resolved_cases [of ncbi v] by (auto simp: notna_def)

lemma TAB_parent_ident: "TAB \<notin> set (fmt v) \<Longrightarrow> TAB \<notin> set (fmt (parent_ident ncbi v))"
  by (simp add: parent_ident_def TAB_resolved) (simp add: fmt_def TAB_def)

lemma notna_parent_ident: "notna v \<Longrightarrow> notna (parent_ident ncbi v)"
  by (simp add: parent_ident_def notna_resolved) (simp add: notna_def)

lemma fmt_inj_notna: "notna a \<Longrightarrow> notna b \<Longrightarrow> fmt a = fmt b \<Longrightarrow> a = b"
  by (cases a; cases b) (simp_all add: notna_def fmt_def)

lemma takeWhile_field: "TAB \<notin> set a \<Longrightarrow> takeWhile (\<lambda>c. c \<noteq> TAB) (a @ TAB # rest) = a"
  by (induction a) auto

lemma dropWhile_field: "TAB \<notin> set a \<Longrightarrow> dropWhile (\<lambda>c. c \<noteq> TAB) (a @ TAB # rest) = TAB # rest"
  by (induction a) auto

lemma line_id_node_line: "TAB \<notin> set (fmt c) \<Longrightarrow> line_id (node_line c p r) = fmt c"
  by (simp add: line_id_def node_line_def sep_def takeWhile_field)

lemma line_parent_node_line:
  "TAB \<notin> set (fmt c) \<Longrightarrow> TAB \<notin> set (fmt p) \<Longrightarrow> line_parent (node_line c p r) = fmt p"
  by (simp add: line_parent_def node_line_def sep_def takeWhile_field dropWhile_field)

lemma line_id_name_line: "TAB \<notin> set (fmt i) \<Longrightarrow> line_id (name_line i level name) = fmt i"
  by (simp add: line_id_def name_line_def sep_def takeWhile_field)

lemma root_nodes_line_eq: "root_nodes_line = node_line (Name ''1'') (Name ''1'') ''no rank''"
  by (simp add: root_nodes_line_def node_line_def fmt_def)

lemma root_names_line_eq: "root_names_line = name_line (Name ''1'') level (Name ''root'')"
  by (simp add: root_names_line_def name_line_def fmt_def)

lemma TAB_one: "TAB \<notin> set (fmt (Name ''1''))"
  by (simp add: fmt_def TAB_def)

lemma row_steps_inv:
  "P parent \<Longrightarrow> (\<And>rank. notna (value_at row rank) \<Longrightarrow> P (value_at row rank)) \<Longrightarrow>
     step \<in> set (row_steps row ranks parent) \<Longrightarrow> P (fst step) \<and> P (fst (snd step))"
  by (induction ranks arbitrary: parent) (auto split: if_splits)

lemma table_steps_tab_free:
  assumes "tab_free df" and "step \<in> set (table_steps df)"
  shows "notna (fst step) \<and> TAB \<notin> set (fmt (fst step))
       \<and> notna (fst (snd step)) \<and> TAB \<notin> set (fmt (fst (snd step)))"
proof -
  from assms(2) obtain r where r: "r \<in> set (rows df)"
    and s: "step \<in> set (row_steps (zip (columns df) r) (available_ranks df) (Name ''root''))"
    by (auto simp: table_steps_def iterrows_def)
  let ?P = "\<lambda>v. notna v \<and> TAB \<notin> set (fmt v)"
  have p: "?P (Name ''root'')"
    by (simp add: notna_def fmt_def TAB_def)
  have v: "\<And>rank. notna (value_at (zip (columns df) r) rank) \<Longrightarrow> ?P (value_at (zip (columns df) r) rank)"
  proof -
    fix rank
    assume n: "notna (value_at (zip (columns df) r) rank)"
    with value_at_zip [of "columns df" r rank] have "value_at (zip (columns df) r) rank \<in> set r"
      by (auto simp: notna_def)
    with assms(1) r n show "?P (value_at (zip (columns df) r) rank)"
      by (auto simp: tab_free_def)
  qed
  from row_steps_inv [of ?P, OF p v s] show ?thesis
    by simp
qed

lemma pair_of_tab_free:
  assumes "tab_free df" and "step \<in> set (table_steps df)"
  shows "notna (fst (pair_of ncbi step)) \<and> TAB \<notin> set (fmt (fst (pair_of ncbi step)))
       \<and> notna (snd (pair_of ncbi step)) \<and> TAB \<notin> set (fmt (snd (pair_of ncbi step)))"
  using table_steps_tab_free [OF assms]
  by (simp add: pair_of_def notna_resolved TAB_resolved notna_parent_ident TAB_parent_ident)

lemma line_pair_step_line:
  assumes "tab_free df" and "step \<in> set (table_steps df)"
  shows "line_pair (step_line ncbi step)
           = (fmt (fst (pair_of ncbi step)), fmt (snd (pair_of ncbi step)))"
  using pair_of_tab_free [OF assms, of ncbi]
  by (simp add: line_pair_def step_line_def line_id_node_line line_parent_node_line)

lemma line_pair_root: "line_pair root_nodes_line = (''1'', ''1'')"
  by (simp add: line_pair_def root_nodes_line_eq line_id_node_line line_parent_node_line TAB_one)
     (simp add: fmt_def)

lemma nodes_emitted_subset: "set (nodes_emitted ncbi df) \<subseteq> set (table_steps df)"
  unfolding nodes_emitted_def by (rule set_emit_new)

lemma distinct_nodes_pairs:
  "distinct (root_pair # map (pair_of ncbi) (nodes_emitted ncbi df))"
proof -
  have "pair_of ncbi ` set (nodes_emitted ncbi df) = pair_of ncbi ` set (table_steps df) - {root_pair}"
    unfolding nodes_emitted_def by (rule set_map_emit_new)
  then have "root_pair \<notin> pair_of ncbi ` set (nodes_emitted ncbi df)"
    by simp
  moreover have "distinct (map (pair_of ncbi) (nodes_emitted ncbi df))"
    unfolding nodes_emitted_def by (rule distinct_emit_new)
  ultimately show ?thesis
    by simp
qed

lemma set_nodes_pairs:
  "set (root_pair # map (pair_of ncbi) (nodes_emitted ncbi df))
     = insert root_pair (pair_of ncbi ` set (table_steps df))"
  using set_map_emit_new [of "pair_of ncbi" "table_steps df" "{root_pair}"]
  by (auto simp: nodes_emitted_def)

lemma line_pairs_nodes_by_walk:
  assumes "tab_free df"
  shows "map line_pair (nodes_by_walk ncbi df)
     = map (\<lambda>pr. (fmt (fst pr), fmt (snd pr))) (root_pair # map (pair_of ncbi) (nodes_emitted ncbi df))"
proof -
  have "\<forall>step\<in>set (nodes_emitted ncbi df). line_pair (step_line ncbi step)
           = (fmt (fst (pair_of ncbi step)), fmt (snd (pair_of ncbi step)))"
    using line_pair_step_line [OF assms] nodes_emitted_subset by blast
  then show ?thesis
    by (simp add: nodes_by_walk_def line_pair_root root_pair_def) (simp add: fmt_def)
qed

lemma distinct_line_pairs:
  assumes "tab_free df"
  shows "distinct (map line_pair (nodes_by_walk ncbi df))"
proof -
  let ?ps = "root_pair # map (pair_of ncbi) (nodes_emitted ncbi df)"
  let ?f = "\<lambda>pr. (fmt (fst pr), fmt (snd pr))"
  have n: "\<forall>pr\<in>set ?ps. notna (fst pr) \<and> notna (snd pr)"
    using pair_of_tab_free [OF assms, of _ ncbi] nodes_emitted_subset [of ncbi df]
    by (auto simp: root_pair_def notna_def)
  have "inj_on ?f (set ?ps)"
  proof (rule inj_onI)
    fix a b
    assume "a \<in> set ?ps" "b \<in> set ?ps" "?f a = ?f b"
    with n show "a = b"
      by (metis fmt_inj_notna prod.inject prod_eqI)
  qed
  with distinct_nodes_pairs [of ncbi df] have "distinct (map ?f ?ps)"
    by (simp only: distinct_map)
  then show ?thesis
    by (simp only: line_pairs_nodes_by_walk [OF assms])
qed

lemma tab_free_sorted_table: "tab_free sorted_table"
  by (simp add: tab_free_def sorted_table_def fmt_def TAB_def)

lemma line_ids_sorted_table_names:
  "map line_id sorted_table_names =
     [''1'', ''K'', ''P'', ''C'', ''O'', ''F1'', ''G1'', ''S1'', ''G2'', ''S2'', ''F2'', ''G1'', ''S3'']"
proof -
  have t: "\<And>s. TAB \<notin> set s \<Longrightarrow> line_id (name_line (Name s) level name) = s" for level name
    using line_id_name_line [of "Name _"] by (simp add: fmt_def)
  show ?thesis
    by (simp add: sorted_table_names_def root_names_line_eq [of "[]"] t TAB_def)
qed

text \<open>
  Claim C2. Whenever the nodes emitter returns, its stream is the root line followed by
  one line per emitted step, each line showing the (child-id, parent-id) pair of its
  step; the pairs of the lines, the root's pair included, are pairwise different, and
  they are exactly the pairs that the steps of the records' walks resolve to (together
  with the root's pair). So a pair that several records or steps yield is on one line
  only. When no cell of the table prints with a tab, the pairs read back from the lines
  are those pairs, and no two lines of the stream carry the same pair.
\<close>

theorem nodes_pair_on_one_line:
  assumes "fst (create_nodes_dump df ncbi) = Inr lines"
  shows "lines = root_nodes_line # map (step_line ncbi) (nodes_emitted ncbi df) \<and>
     distinct (root_pair # map (pair_of ncbi) (nodes_emitted ncbi df)) \<and>
     set (root_pair # map (pair_of ncbi) (nodes_emitted ncbi df))
       = insert root_pair (pair_of ncbi ` set (table_steps df)) \<and>
     (tab_free df \<longrightarrow>
        map line_pair lines
          = map (\<lambda>pr. (fmt (fst pr), fmt (snd pr)))
              (root_pair # map (pair_of ncbi) (nodes_emitted ncbi df)) \<and>
        distinct (map line_pair lines))"
proof -
  from create_nodes_dump_Inr(1) [OF assms] have l: "lines = nodes_by_walk ncbi df" .
  then have "lines = root_nodes_line # map (step_line ncbi) (nodes_emitted ncbi df)"
    by (simp add: nodes_by_walk_def)
  with l distinct_nodes_pairs [of ncbi df] set_nodes_pairs [of ncbi df]
    line_pairs_nodes_by_walk [of df ncbi] distinct_line_pairs [of df ncbi]
  show ?thesis
    by blast
qed

theorem nodes_pair_on_one_line_witness:
  "fst (create_nodes_dump sorted_table miss_ncbi) = Inr sorted_table_nodes \<and>
   tab_free sorted_table \<and>
   distinct (map line_pair sorted_table_nodes)"
  using nodes_pair_on_one_line [OF nodes_sorted_table] nodes_sorted_table tab_free_sorted_table
  by blast

subsection \<open>Every identifier of the nodes stream has a names line\<close>

lemma names_emitted_covers_aux:
  "i < length rs \<Longrightarrow> level \<in> set levels \<Longrightarrow>
     (level, value_at (rs ! i) level)
       \<in> set (concat (map (\<lambda>row. map (\<lambda>level. (level, value_at row level)) levels) (take 1 rs))
              @ concat (map (\<lambda>(previous, row).
                   map (\<lambda>level. (level, value_at row level))
                     (filter (\<lambda>level. py_ne (value_at row level) (value_at previous level)) levels))
                 (zip rs (drop 1 rs))))"
proof (induction i)
  case 0
  then obtain r rest where "rs = r # rest"
    by (cases rs) auto
  with 0 show ?case by simp
next
  case (Suc i)
  then have i: "i < length rs" by simp
  show ?case
  proof (cases "py_ne (value_at (rs ! Suc i) level) (value_at (rs ! i) level)")
    case True
    have "(rs ! i, rs ! Suc i) \<in> set (zip rs (drop 1 rs))"
      using Suc.prems(1) i by (auto simp: in_set_zip intro!: exI [of _ i])
    with True Suc.prems(2) show ?thesis
      by force
  next
    case False
    then have "value_at (rs ! Suc i) level = value_at (rs ! i) level"
      by (simp add: py_ne_def)
    with Suc.IH [OF i Suc.prems(2)] show ?thesis
      by simp
  qed
qed

lemma names_emitted_covers:
  assumes "row \<in> set (iterrows df)" and "level \<in> set rank_order"
  shows "(level, value_at row level) \<in> set (names_emitted df)"
proof -
  from assms(1) obtain i where "i < length (iterrows df)" "row = iterrows df ! i"
    by (auto simp: in_set_conv_nth)
  with names_emitted_covers_aux [OF this(1) assms(2)] show ?thesis
    by (simp add: names_emitted_def Let_def)
qed

lemma row_steps_origin:
  "step \<in> set (row_steps row ranks parent) \<Longrightarrow>
     (\<exists>rank\<in>set ranks. fst step = value_at row rank) \<and>
     (fst (snd step) = parent \<or> (\<exists>rank\<in>set ranks. fst (snd step) = value_at row rank))"
proof (induction ranks arbitrary: parent)
  case Nil
  then show ?case by simp
next
  case (Cons rank ranks)
  show ?case
  proof (cases "step = (value_at row rank, parent, rank)")
    case True
    then show ?thesis by simp
  next
    case False
    with Cons.prems have "step \<in> set (row_steps row ranks (value_at row rank))"
      by (auto split: if_splits)
    from Cons.IH [OF this] show ?thesis
      by auto
  qed
qed

lemma table_steps_origin:
  assumes "step \<in> set (table_steps df)"
  shows "\<exists>row\<in>set (iterrows df).
     (\<exists>rank\<in>set rank_order. fst step = value_at row rank) \<and>
     (fst (snd step) = Name ''root'' \<or> (\<exists>rank\<in>set rank_order. fst (snd step) = value_at row rank))"
proof -
  from assms obtain row where row: "row \<in> set (iterrows df)"
    and s: "step \<in> set (row_steps row (available_ranks df) (Name ''root''))"
    by (auto simp: table_steps_def)
  have "set (available_ranks df) \<subseteq> set rank_order"
    by (auto simp: available_ranks_def)
  with row_steps_origin [OF s] row show ?thesis
    by blast
qed

lemma names_line_of_value:
  assumes "row \<in> set (iterrows df)" and "level \<in> set rank_order"
  shows "name_line (resolved ncbi (value_at row level)) level (value_at row level)
           \<in> set (names_by_predecessor_rule ncbi df)"
  using names_emitted_covers [OF assms] by (force simp: names_by_predecessor_rule_def)

lemma step_ids_have_names_line:
  assumes "step \<in> set (table_steps df)"
  shows "(\<exists>level v. name_line (fst (pair_of ncbi step)) level v \<in> set (names_by_predecessor_rule ncbi df))
       \<and> (\<exists>level v. name_line (snd (pair_of ncbi step)) level v \<in> set (names_by_predecessor_rule ncbi df))"
proof -
  from table_steps_origin [OF assms] obtain row where row: "row \<in> set (iterrows df)"
    and c: "\<exists>rank\<in>set rank_order. fst step = value_at row rank"
    and p: "fst (snd step) = Name ''root'' \<or> (\<exists>rank\<in>set rank_order. fst (snd step) = value_at row rank)"
    by blast
  from c obtain rank where rank: "rank \<in> set rank_order" "fst step = value_at row rank"
    by blast
  from names_line_of_value [OF row rank(1), of ncbi] rank(2)
  have 1: "\<exists>level v. name_line (fst (pair_of ncbi step)) level v
      \<in> set (names_by_predecessor_rule ncbi df)"
    by (auto simp: pair_of_def)
  have 2: "\<exists>level v. name_line (snd (pair_of ncbi step)) level v
      \<in> set (names_by_predecessor_rule ncbi df)"
  proof (cases "fst (snd step) = Name ''root''")
    case True
    have "name_line (Name ''1'') [] (Name ''root'') \<in> set (names_by_predecessor_rule ncbi df)"
      using root_names_line_eq [of "[]"] by (simp add: names_by_predecessor_rule_def)
    with True show ?thesis
      by (auto simp: pair_of_def parent_ident_def)
  next
    case False
    with p obtain rank' where rank': "rank' \<in> set rank_order" "fst (snd step) = value_at row rank'"
      by blast
    from names_line_of_value [OF row rank'(1), of ncbi] rank'(2) False show ?thesis
      by (auto simp: pair_of_def parent_ident_def)
  qed
  from 1 2 show ?thesis ..
qed

lemma nodes_line_origin:
  assumes "l \<in> set (nodes_by_walk ncbi df)"
  shows "\<exists>c p r. l = node_line c p r
      \<and> (\<exists>level v. name_line c level v \<in> set (names_by_predecessor_rule ncbi df))
      \<and> (\<exists>level v. name_line p level v \<in> set (names_by_predecessor_rule ncbi df))
      \<and> (tab_free df \<longrightarrow> TAB \<notin> set (fmt c) \<and> TAB \<notin> set (fmt p))"
proof (cases "l = root_nodes_line")
  case True
  have "name_line (Name ''1'') [] (Name ''root'') \<in> set (names_by_predecessor_rule ncbi df)"
    using root_names_line_eq [of "[]"] by (simp add: names_by_predecessor_rule_def)
  with True root_nodes_line_eq TAB_one show ?thesis
    by blast
next
  case False
  with assms obtain step where s: "step \<in> set (nodes_emitted ncbi df)" and l: "l = step_line ncbi step"
    by (auto simp: nodes_by_walk_def)
  from s nodes_emitted_subset have t: "step \<in> set (table_steps df)"
    by blast
  from l have "l = node_line (fst (pair_of ncbi step)) (snd (pair_of ncbi step)) (rank_text (snd (snd step)))"
    by (simp add: step_line_def)
  with step_ids_have_names_line [OF t, of ncbi] pair_of_tab_free [OF _ t, of ncbi]
  show ?thesis
    by blast
qed

text \<open>
  Claim C1, as amended. Whenever both emitters return, every line of the nodes stream
  is the line of a child identifier and a parent identifier each of which has at least
  one line in the names stream. When no cell of the table prints with a tab, this reads
  on the lines themselves: the child field and the parent field of every nodes line
  occur as the identifier field of some names line. (There may be more than one such
  names line.)
\<close>

theorem nodes_ids_have_names_line:
  assumes "fst (create_names_dump df ncbi) = Inr lines"
    and "fst (create_nodes_dump df ncbi) = Inr nlines"
  shows "(\<forall>l\<in>set nlines. \<exists>c p r. l = node_line c p r
            \<and> (\<exists>level v. name_line c level v \<in> set lines)
            \<and> (\<exists>level v. name_line p level v \<in> set lines)) \<and>
         (tab_free df \<longrightarrow>
            (\<forall>l\<in>set nlines. line_id l \<in> line_id ` set lines \<and> line_parent l \<in> line_id ` set lines))"
proof -
  from create_names_dump_Inr(1) [OF assms(1)] have n: "lines = names_by_predecessor_rule ncbi df" .
  from create_nodes_dump_Inr(1) [OF assms(2)] have d: "nlines = nodes_by_walk ncbi df" .
  have 1: "\<forall>l\<in>set nlines. \<exists>c p r. l = node_line c p r
            \<and> (\<exists>level v. name_line c level v \<in> set lines)
            \<and> (\<exists>level v. name_line p level v \<in> set lines)"
    using nodes_line_origin [of _ ncbi df] unfolding n d by blast
  have 2: "tab_free df \<longrightarrow>
      (\<forall>l\<in>set nlines. line_id l \<in> line_id ` set lines \<and> line_parent l \<in> line_id ` set lines)"
  proof (intro impI ballI)
    fix l
    assume tf: "tab_free df" and l: "l \<in> set nlines"
    from nodes_line_origin [of l ncbi df] l tf obtain c p r lc vc lp vp where
      eq: "l = node_line c p r"
      and c: "name_line c lc vc \<in> set lines" and p: "name_line p lp vp \<in> set lines"
      and tc: "TAB \<notin> set (fmt c)" and tp: "TAB \<notin> set (fmt p)"
      unfolding n d by blast
    from c tc have "fmt c \<in> line_id ` set lines"
      by (metis image_eqI line_id_name_line)
    moreover from p tp have "fmt p \<in> line_id ` set lines"
      by (metis image_eqI line_id_name_line)
    ultimately show "line_id l \<in> line_id ` set lines \<and> line_parent l \<in> line_id ` set lines"
      using eq tc tp by (simp add: line_id_node_line line_parent_node_line)
  qed
  from 1 2 show ?thesis ..
qed

theorem nodes_ids_have_names_line_witness:
  "fst (create_names_dump sorted_table miss_ncbi) = Inr sorted_table_names \<and>
   fst (create_nodes_dump sorted_table miss_ncbi) = Inr sorted_table_nodes \<and>
   tab_free sorted_table \<and>
   line_id ` set sorted_table_nodes \<subseteq> line_id ` set sorted_table_names \<and>
   line_parent ` set sorted_table_nodes \<subseteq> line_id ` set sorted_table_names"
proof -
  have n: "fst (create_names_dump sorted_table miss_ncbi) = Inr sorted_table_names"
    by (simp add: names_sorted_table)
  from nodes_ids_have_names_line [OF n nodes_sorted_table] n nodes_sorted_table
    tab_free_sorted_table
  show ?thesis
    by blast
qed

lemma line_id_sorted_table_nodes_6: "line_id (sorted_table_nodes ! 6) = ''G1''"
  using line_id_node_line [of "Name ''G1''" "Name ''F1''" "''genus''"]
  by (simp add: sorted_table_nodes_def fmt_def TAB_def)

theorem two_names_lines_for_one_id_counterexample:
  "fst (create_names_dump sorted_table miss_ncbi) = Inr sorted_table_names \<and>
   fst (create_nodes_dump sorted_table miss_ncbi) = Inr sorted_table_nodes \<and>
   line_id (sorted_table_nodes ! 6) = ''G1'' \<and>
   count_list (map line_id sorted_table_names) ''G1'' = 2"
  by (simp add: names_sorted_table nodes_sorted_table line_id_sorted_table_nodes_6
        line_ids_sorted_table_names)

subsection \<open>Gaps and the names stream\<close>

lemma nodes_gap_table:
  "fst (create_nodes_dump gap_table miss_ncbi)
     = Inr [root_nodes_line, node_line (Name ''A'') (Name ''1'') ''kingdom'']"
  by (simp add: eval_defs gap_table_def del: tr_bind_Inr cong: tr_bind_weak_cong)

lemma gap_row_in_gap_table: "gap_row \<in> set (iterrows gap_table)"
  by (simp add: iterrows_def gap_table_def gap_row_def)

lemma gap_row_values:
  "value_at gap_row ''kingdom'' = Name ''A''" "value_at gap_row ''phylum'' = NaN"
  "value_at gap_row ''class'' = Name ''B''"
  by (simp_all add: gap_row_def rank_order_def value_at_def)

text \<open>
  Claim C5 holds for the nodes stream and fails for the names stream. The names emitter
  has no test for a missing value. On the record kingdom = A, phylum missing, class = B
  the nodes emitter stops after A, while the names emitter goes on to class: with the
  resolver that knows no name it emits the line for B (fourth line of the stream, after
  the line it writes for the missing phylum); and with any resolver whatever it either
  ends with the exception of some resolver query, producing no stream, or returns a
  stream that holds the line for B.
\<close>

theorem names_emitter_has_no_gap_rule:
  "value_at gap_row ''kingdom'' = Name ''A'' \<and> value_at gap_row ''phylum'' = NaN \<and>
   value_at gap_row ''class'' = Name ''B'' \<and> iterrows gap_table = [gap_row] \<and>
   fst (create_nodes_dump gap_table miss_ncbi)
     = Inr [root_nodes_line, node_line (Name ''A'') (Name ''1'') ''kingdom''] \<and>
   fst (create_names_dump gap_table miss_ncbi) = Inr gap_table_names \<and>
   gap_table_names ! 3 = name_line (Name ''B'') ''class'' (Name ''B'') \<and>
   ((\<exists>e. fst (create_names_dump gap_table ncbi) = Inl e) \<or>
    fst (create_names_dump gap_table ncbi) = Inr (names_by_predecessor_rule ncbi gap_table) \<and>
    name_line (resolved ncbi (Name ''B'')) ''class'' (Name ''B'')
      \<in> set (names_by_predecessor_rule ncbi gap_table))"
proof -
  have it: "iterrows gap_table = [gap_row]"
    by (simp add: iterrows_def gap_table_def gap_row_def)
  have general: "(\<exists>e. fst (create_names_dump gap_table ncbi) = Inl e) \<or>
    fst (create_names_dump gap_table ncbi) = Inr (names_by_predecessor_rule ncbi gap_table) \<and>
    name_line (resolved ncbi (Name ''B'')) ''class'' (Name ''B'')
      \<in> set (names_by_predecessor_rule ncbi gap_table)"
  proof (cases "fst (create_names_dump gap_table ncbi)")
    case (Inl e)
    then show ?thesis by blast
  next
    case (Inr lines)
    have "''class'' \<in> set rank_order"
      by (simp add: rank_order_def)
    from names_line_of_value [OF gap_row_in_gap_table this, of ncbi]
    have "name_line (resolved ncbi (Name ''B'')) ''class'' (Name ''B'')
      \<in> set (names_by_predecessor_rule ncbi gap_table)"
      by (simp add: gap_row_values)
    with Inr create_names_dump_Inr(1) [OF Inr] show ?thesis
      by simp
  qed
  have "gap_table_names ! 3 = name_line (Name ''B'') ''class'' (Name ''B'')"
    by (simp add: gap_table_names_def)
  with general it gap_row_values nodes_gap_table names_gap_table show ?thesis
    by blast
qed

end
